theory Spec2Isabelle
  imports Main
begin

unbundle bit_operations_syntax

section \<open>Python values used by nornir-netbox-demo.py\<close>

text \<open>
  The script is Python. Its integers are unbounded (\<open>int\<close>), its strings are lists of
  characters, a dictionary whose order matters is an association list in insertion order,
  and every exception that a line of the script can raise is a value of \<open>exn\<close>: a
  function that may raise returns \<open>exn + 'a\<close>, with \<open>Inl\<close> for the exception.
\<close>

datatype exn =
    ValueError
  | AddressValueError
  | NetmaskValueError
  | IndexError
  | NornirSubTaskError
  | CreateException
  | EOFError

subsection \<open>Strings\<close>

text \<open>\<open>s.split(c)\<close> for a separator of one character: the empty string splits into one
  empty field, and two separators in a row enclose an empty field.\<close>

fun split_on :: "char \<Rightarrow> string \<Rightarrow> string list" where
  "split_on c [] = [[]]"
| "split_on c (x # xs) =
     (if x = c then [] # split_on c xs
      else (case split_on c xs of
              [] \<Rightarrow> [[x]]
            | w # ws \<Rightarrow> (x # w) # ws))"

text \<open>\<open>s.isascii() and s.isdigit()\<close>: not empty, and decimal digits only.\<close>

definition is_digit :: "char \<Rightarrow> bool" where
  "is_digit c = (c \<in> set ''0123456789'')"

definition isdigit :: "string \<Rightarrow> bool" where
  "isdigit s = (s \<noteq> [] \<and> list_all is_digit s)"

definition digit_value :: "char \<Rightarrow> nat" where
  "digit_value c = of_char c - of_char CHR ''0''"

text \<open>\<open>int(s, 10)\<close> on a string of decimal digits.\<close>

definition int_of_str :: "string \<Rightarrow> int" where
  "int_of_str s = foldl (\<lambda>n c. 10 * n + int (digit_value c)) 0 s"

text \<open>\<open>str(n)\<close> and \<open>'%d' % n\<close> for a natural number.\<close>

fun str_nat :: "nat \<Rightarrow> string" where
  "str_nat n =
     (if n < 10 then [''0123456789'' ! n]
      else str_nat (n div 10) @ [''0123456789'' ! (n mod 10)])"

declare str_nat.simps [simp del]

text \<open>\<open>sep.join(parts)\<close>.\<close>

fun join :: "string \<Rightarrow> string list \<Rightarrow> string" where
  "join sep [] = []"
| "join sep [x] = x"
| "join sep (x # y # ys) = x @ sep @ join sep (y # ys)"

text \<open>\<open>s.center(80, ' ')\<close>: a string of 80 characters or more is returned as it is; the
  padding is split with the odd blank on the right, since the width is even.\<close>

definition center80 :: "string \<Rightarrow> string" where
  "center80 s =
     (if 80 \<le> length s then s
      else (let marg = 80 - length s;
                left = marg div 2
            in replicate left CHR '' '' @ s @ replicate (marg - left) CHR '' ''))"

text \<open>\<open>c_print(printme)\<close> prints the centred text between two newlines; the model returns
  the text that is printed, and the standard output is the list of the texts printed.\<close>

definition c_print :: "string \<Rightarrow> string" where
  "c_print printme = ''\<newline>'' @ center80 printme @ ''\<newline>''"

text \<open>Running every element of a list through a function that may raise, stopping at the
  first exception.\<close>

fun try_map :: "('a \<Rightarrow> exn + 'b) \<Rightarrow> 'a list \<Rightarrow> exn + 'b list" where
  "try_map f [] = Inr []"
| "try_map f (x # xs) =
     (case f x of
        Inl e \<Rightarrow> Inl e
      | Inr y \<Rightarrow> (case try_map f xs of Inl e \<Rightarrow> Inl e | Inr ys \<Rightarrow> Inr (y # ys)))"

section \<open>The standard library's \<open>ipaddress\<close> module\<close>

text \<open>
  \<open>validate_l3\<close> and \<open>update_netbox\<close> call \<open>ip_interface\<close> on the text
  \<open>address/mask\<close>. The functions below follow CPython's \<open>ipaddress.py\<close>, one
  definition for each function of the module that the call reaches, with addresses as Python
  integers: \<open>ip_interface\<close> tries \<open>IPv4Interface\<close> first and \<open>IPv6Interface\<close> second,
  and raises \<open>ValueError\<close> when both have raised.
\<close>

subsection \<open>IPv4\<close>

definition ALL_ONES :: int where
  "ALL_ONES = 2 ^ 32 - 1"

definition parse_octet :: "string \<Rightarrow> exn + int" where
  "parse_octet octet_str =
     (if octet_str = [] then Inl ValueError
      else if \<not> isdigit octet_str then Inl ValueError
      else if 3 < length octet_str then Inl ValueError
      else if octet_str \<noteq> ''0'' \<and> hd octet_str = CHR ''0'' then Inl ValueError
      else (let octet_int = int_of_str octet_str
            in if 255 < octet_int then Inl ValueError else Inr octet_int))"

text \<open>\<open>int.from_bytes(octets, 'big')\<close>.\<close>

definition from_bytes :: "int list \<Rightarrow> int" where
  "from_bytes bs = foldl (\<lambda>n b. 256 * n + b) 0 bs"

definition ip_int_from_string :: "string \<Rightarrow> exn + int" where
  "ip_int_from_string ip_str =
     (if ip_str = [] then Inl AddressValueError
      else (let octets = split_on CHR ''.'' ip_str
            in if length octets \<noteq> 4 then Inl AddressValueError
               else (case try_map parse_octet octets of
                       Inl e \<Rightarrow> Inl AddressValueError
                     | Inr bs \<Rightarrow> Inr (from_bytes bs))))"

text \<open>\<open>IPv4Address(address)\<close> for a string: the integer of the address.\<close>

definition IPv4Address :: "string \<Rightarrow> exn + int" where
  "IPv4Address addr_str =
     (if CHR ''/'' \<in> set addr_str then Inl AddressValueError
      else ip_int_from_string addr_str)"

text \<open>\<open>ip_int.to_bytes(4, 'big')\<close> and \<open>_string_from_ip_int\<close>.\<close>

definition to_bytes4 :: "int \<Rightarrow> nat list" where
  "to_bytes4 n = map (\<lambda>k. nat (drop_bit (8 * k) n AND 255)) [3, 2, 1, 0]"

definition string_from_ip_int :: "int \<Rightarrow> string" where
  "string_from_ip_int ip_int = join ''.'' (map str_nat (to_bytes4 ip_int))"

fun bit_length :: "int \<Rightarrow> nat" where
  "bit_length n = (if n \<le> 0 then 0 else Suc (bit_length (n div 2)))"

declare bit_length.simps [simp del]

definition count_righthand_zero_bits :: "int \<Rightarrow> nat \<Rightarrow> nat" where
  "count_righthand_zero_bits number bits =
     (if number = 0 then bits
      else min bits (bit_length (NOT number AND (number - 1))))"

definition prefix_from_ip_int :: "int \<Rightarrow> exn + nat" where
  "prefix_from_ip_int ip_int =
     (let trailing_zeroes = count_righthand_zero_bits ip_int 32;
          prefixlen = 32 - trailing_zeroes;
          leading_ones = drop_bit trailing_zeroes ip_int;
          all_ones = push_bit prefixlen 1 - 1
      in if leading_ones \<noteq> all_ones then Inl ValueError else Inr prefixlen)"

definition prefix_from_prefix_string :: "string \<Rightarrow> exn + nat" where
  "prefix_from_prefix_string prefixlen_str =
     (if \<not> isdigit prefixlen_str then Inl NetmaskValueError
      else (let prefixlen = int_of_str prefixlen_str
            in if \<not> (0 \<le> prefixlen \<and> prefixlen \<le> 32) then Inl NetmaskValueError
               else Inr (nat prefixlen)))"

definition prefix_from_ip_string :: "string \<Rightarrow> exn + nat" where
  "prefix_from_ip_string ip_str =
     (case ip_int_from_string ip_str of
        Inl e \<Rightarrow> Inl NetmaskValueError
      | Inr ip_int \<Rightarrow>
          (case prefix_from_ip_int ip_int of
             Inr p \<Rightarrow> Inr p
           | Inl e \<Rightarrow>
               (case prefix_from_ip_int (ip_int XOR ALL_ONES) of
                  Inr p \<Rightarrow> Inr p
                | Inl e' \<Rightarrow> Inl NetmaskValueError)))"

definition ip_int_from_prefix :: "nat \<Rightarrow> int" where
  "ip_int_from_prefix prefixlen = ALL_ONES XOR drop_bit prefixlen ALL_ONES"

text \<open>\<open>_make_netmask\<close> for a string: the pair of the netmask and the prefix length.\<close>

definition make_netmask :: "string \<Rightarrow> exn + int \<times> nat" where
  "make_netmask arg =
     (case (case prefix_from_prefix_string arg of
              Inr p \<Rightarrow> Inr p
            | Inl e \<Rightarrow> prefix_from_ip_string arg) of
        Inl e \<Rightarrow> Inl e
      | Inr prefixlen \<Rightarrow> Inr (ip_int_from_prefix prefixlen, prefixlen))"

text \<open>An \<open>IPv4Network\<close>: its network address and its netmask. Two networks are equal when
  both fields are.\<close>

record ipv4_network =
  network_address :: int
  net_netmask :: int

text \<open>An \<open>IPv4Interface\<close>: the address, its network and the prefix length.\<close>

record ipv4_interface =
  ip :: int
  network :: ipv4_network
  prefixlen :: nat

text \<open>\<open>IPv4Interface(address)\<close> for a string: the text is split at \<open>/\<close> (two parts at
  most; a text with no \<open>/\<close> gets the prefix length 32), the address is parsed, and the
  network is built with \<open>strict=False\<close>, which masks the host bits away.\<close>

definition IPv4Interface :: "string \<Rightarrow> exn + ipv4_interface" where
  "IPv4Interface address =
     (let parts = split_on CHR ''/'' address
      in if 2 < length parts then Inl AddressValueError
         else (case IPv4Address (hd parts) of
                 Inl e \<Rightarrow> Inl e
               | Inr addr \<Rightarrow>
                   (case (if 1 < length parts then make_netmask (parts ! 1)
                          else Inr (ip_int_from_prefix 32, 32)) of
                      Inl e \<Rightarrow> Inl e
                    | Inr (nmask, plen) \<Rightarrow>
                        Inr \<lparr>ip = addr,
                             network = \<lparr>network_address = addr AND nmask, net_netmask = nmask\<rparr>,
                             prefixlen = plen\<rparr>)))"

subsection \<open>IPv6\<close>

definition ALL_ONES_v6 :: int where
  "ALL_ONES_v6 = 2 ^ 128 - 1"

text \<open>\<open>_HEX_DIGITS\<close>, and \<open>int(s, 16)\<close> on a string of hexadecimal digits.\<close>

definition is_hex_digit :: "char \<Rightarrow> bool" where
  "is_hex_digit c = (c \<in> set ''0123456789ABCDEFabcdef'')"

definition hex_digit_value :: "char \<Rightarrow> nat" where
  "hex_digit_value c =
     (if is_digit c then of_char c - of_char CHR ''0''
      else if c \<in> set ''abcdef'' then of_char c - of_char CHR ''a'' + 10
      else of_char c - of_char CHR ''A'' + 10)"

definition int_of_hex :: "string \<Rightarrow> int" where
  "int_of_hex s = foldl (\<lambda>n c. 16 * n + int (hex_digit_value c)) 0 s"

text \<open>\<open>'%x' % n\<close> for a natural number.\<close>

fun hex_str :: "nat \<Rightarrow> string" where
  "hex_str n =
     (if n < 16 then [''0123456789abcdef'' ! n]
      else hex_str (n div 16) @ [''0123456789abcdef'' ! (n mod 16)])"

declare hex_str.simps [simp del]

text \<open>\<open>_parse_hextet\<close>; \<open>int('', 16)\<close> raises \<open>ValueError\<close>.\<close>

definition parse_hextet :: "string \<Rightarrow> exn + int" where
  "parse_hextet hextet_str =
     (if \<not> list_all is_hex_digit hextet_str then Inl ValueError
      else if 4 < length hextet_str then Inl ValueError
      else if hextet_str = [] then Inl ValueError
      else Inr (int_of_hex hextet_str))"

text \<open>The loop that looks for \<open>::\<close>: an empty part that is neither the first nor the last,
  of which there is one at most. The list is \<open>parts[1:-1]\<close>, and \<open>i\<close> the index in
  \<open>parts\<close> of its first element.\<close>

fun find_skip_index :: "string list \<Rightarrow> nat \<Rightarrow> nat option \<Rightarrow> exn + nat option" where
  "find_skip_index [] i skip_index = Inr skip_index"
| "find_skip_index (part # rest) i skip_index =
     (if part = [] then
        (if skip_index \<noteq> None then Inl AddressValueError
         else find_skip_index rest (Suc i) (Some i))
      else find_skip_index rest (Suc i) skip_index)"

text \<open>The numbers \<open>parts_hi\<close>, \<open>parts_lo\<close> and \<open>parts_skipped\<close> of the parts to read
  before the \<open>::\<close>, after it, and of the groups of zeroes that it stands for.\<close>

definition hextet_counts :: "string list \<Rightarrow> nat option \<Rightarrow> exn + nat \<times> nat \<times> nat" where
  "hextet_counts parts skip =
     (case skip of
        Some skip_index \<Rightarrow>
          (case (if hd parts = []
                 then (if skip_index - 1 \<noteq> 0 then Inl AddressValueError
                       else Inr (skip_index - 1))
                 else Inr skip_index) of
             Inl e \<Rightarrow> Inl e
           | Inr parts_hi \<Rightarrow>
               (case (if last parts = []
                      then (if length parts - skip_index - 1 - 1 \<noteq> 0 then Inl AddressValueError
                            else Inr (length parts - skip_index - 1 - 1))
                      else Inr (length parts - skip_index - 1)) of
                  Inl e \<Rightarrow> Inl e
                | Inr parts_lo \<Rightarrow>
                    (if 8 - int (parts_hi + parts_lo) < 1 then Inl AddressValueError
                     else Inr (parts_hi, parts_lo, 8 - (parts_hi + parts_lo)))))
      | None \<Rightarrow>
          (if length parts \<noteq> 8 then Inl AddressValueError
           else if hd parts = [] then Inl AddressValueError
           else if last parts = [] then Inl AddressValueError
           else Inr (length parts, 0, 0)))"

text \<open>\<open>_ip_int_from_string\<close> of IPv6: the text is split at the colons; a last part with a
  dot is an IPv4 address, replaced by its two groups in hexadecimal; the parts before and
  after \<open>::\<close> are read as groups of 16 bits. A \<open>ValueError\<close> of \<open>_parse_hextet\<close> is
  raised again as \<open>AddressValueError\<close>.\<close>

definition ip_int_from_string_v6 :: "string \<Rightarrow> exn + int" where
  "ip_int_from_string_v6 ip_str =
     (if ip_str = [] then Inl AddressValueError
      else (let parts = split_on CHR '':'' ip_str
            in if length parts < 3 then Inl AddressValueError
               else (case (if CHR ''.'' \<in> set (last parts)
                           then (case IPv4Address (last parts) of
                                   Inl e \<Rightarrow> Inl AddressValueError
                                 | Inr ipv4_int \<Rightarrow>
                                     Inr (butlast parts @
                                          [hex_str (nat (drop_bit 16 ipv4_int AND 0xFFFF)),
                                           hex_str (nat (ipv4_int AND 0xFFFF))]))
                           else Inr parts) of
                       Inl e \<Rightarrow> Inl e
                     | Inr parts \<Rightarrow>
                         (if 9 < length parts then Inl AddressValueError
                          else (case find_skip_index (butlast (tl parts)) 1 None of
                                  Inl e \<Rightarrow> Inl e
                                | Inr skip \<Rightarrow>
                                    (case hextet_counts parts skip of
                                       Inl e \<Rightarrow> Inl e
                                     | Inr (parts_hi, parts_lo, parts_skipped) \<Rightarrow>
                                         (case try_map parse_hextet (take parts_hi parts) of
                                            Inl e \<Rightarrow> Inl AddressValueError
                                          | Inr his \<Rightarrow>
                                              (case try_map parse_hextet
                                                      (drop (length parts - parts_lo) parts) of
                                                 Inl e \<Rightarrow> Inl AddressValueError
                                               | Inr los \<Rightarrow>
                                                   Inr (foldl (\<lambda>n h. push_bit 16 n OR h)
                                                          (push_bit (16 * parts_skipped)
                                                             (foldl (\<lambda>n h. push_bit 16 n OR h) 0 his))
                                                          los)))))))))"

text \<open>\<open>_split_scope_id\<close>: \<open>ip_str.partition('%')\<close> cuts the text at its first \<open>%\<close>; a
  scope that is empty or has a \<open>%\<close> is refused.\<close>

definition split_scope_id :: "string \<Rightarrow> exn + string \<times> string option" where
  "split_scope_id ip_str =
     (let addr = takeWhile (\<lambda>c. c \<noteq> CHR ''%'') ip_str;
          rest = dropWhile (\<lambda>c. c \<noteq> CHR ''%'') ip_str
      in if rest = [] then Inr (addr, None)
         else (let scope = tl rest
               in if scope = [] \<or> CHR ''%'' \<in> set scope then Inl AddressValueError
                  else Inr (addr, Some scope)))"

text \<open>An \<open>IPv6Address\<close>: its integer and its scope, which is \<open>None\<close> when the text has
  none. Two addresses are equal when both fields are.\<close>

record ipv6_address =
  ip_v6 :: int
  scope_id :: "string option"

definition IPv6Address :: "string \<Rightarrow> exn + ipv6_address" where
  "IPv6Address addr_str =
     (if CHR ''/'' \<in> set addr_str then Inl AddressValueError
      else (case split_scope_id addr_str of
              Inl e \<Rightarrow> Inl e
            | Inr (addr, scope) \<Rightarrow>
                (case ip_int_from_string_v6 addr of
                   Inl e \<Rightarrow> Inl e
                 | Inr n \<Rightarrow> Inr \<lparr>ip_v6 = n, scope_id = scope\<rparr>)))"

definition prefix_from_prefix_string_v6 :: "string \<Rightarrow> exn + nat" where
  "prefix_from_prefix_string_v6 prefixlen_str =
     (if \<not> isdigit prefixlen_str then Inl NetmaskValueError
      else (let plen = int_of_str prefixlen_str
            in if \<not> (0 \<le> plen \<and> plen \<le> 128) then Inl NetmaskValueError
               else Inr (nat plen)))"

definition ip_int_from_prefix_v6 :: "nat \<Rightarrow> int" where
  "ip_int_from_prefix_v6 plen = ALL_ONES_v6 XOR drop_bit plen ALL_ONES_v6"

text \<open>\<open>_make_netmask\<close> of IPv6 for a string, which is a prefix length: there is no
  netmask in the form of an address.\<close>

definition make_netmask_v6 :: "string \<Rightarrow> exn + int \<times> nat" where
  "make_netmask_v6 arg =
     (case prefix_from_prefix_string_v6 arg of
        Inl e \<Rightarrow> Inl e
      | Inr plen \<Rightarrow> Inr (ip_int_from_prefix_v6 plen, plen))"

text \<open>An \<open>IPv6Network\<close> and an \<open>IPv6Interface\<close>.\<close>

record ipv6_network =
  network_address_v6 :: ipv6_address
  net_netmask_v6 :: int

record ipv6_interface =
  address_v6 :: ipv6_address
  network_v6 :: ipv6_network
  prefixlen_v6 :: nat

text \<open>\<open>IPv6Interface(address)\<close> for a string, as for IPv4. \<open>IPv6Network\<close> with
  \<open>strict=False\<close> keeps the address it is given, with its scope, when the address has no
  host bit set, and makes a new address from the masked integer otherwise, which has no
  scope.\<close>

definition IPv6Interface :: "string \<Rightarrow> exn + ipv6_interface" where
  "IPv6Interface address =
     (let parts = split_on CHR ''/'' address
      in if 2 < length parts then Inl AddressValueError
         else (case IPv6Address (hd parts) of
                 Inl e \<Rightarrow> Inl e
               | Inr addr \<Rightarrow>
                   (case (if 1 < length parts then make_netmask_v6 (parts ! 1)
                          else Inr (ip_int_from_prefix_v6 128, 128)) of
                      Inl e \<Rightarrow> Inl e
                    | Inr (nmask, plen) \<Rightarrow>
                        Inr \<lparr>address_v6 = addr,
                             network_v6 =
                               \<lparr>network_address_v6 =
                                  (if ip_v6 addr AND nmask \<noteq> ip_v6 addr
                                   then \<lparr>ip_v6 = ip_v6 addr AND nmask, scope_id = None\<rparr>
                                   else addr),
                                net_netmask_v6 = nmask\<rparr>,
                             prefixlen_v6 = plen\<rparr>)))"

text \<open>\<open>_compress_hextets\<close>: the loop keeps the start and the length of the best run of
  groups \<open>0\<close> and of the run at hand (\<open>-1\<close> for no start); the first of the longest runs, when it
  has two groups or more, is replaced by one empty string, with one more empty string at an
  end of the address that the run touches.\<close>

definition compress_step :: "int \<times> nat \<times> int \<times> nat \<Rightarrow> nat \<times> string \<Rightarrow> int \<times> nat \<times> int \<times> nat" where
  "compress_step state item =
     (case state of
        (best_doublecolon_start, best_doublecolon_len, doublecolon_start, doublecolon_len) \<Rightarrow>
          (if snd item = ''0'' then
             (let len = doublecolon_len + 1;
                  start = (if doublecolon_start = - 1 then int (fst item) else doublecolon_start)
              in if best_doublecolon_len < len then (start, len, start, len)
                 else (best_doublecolon_start, best_doublecolon_len, start, len))
           else (best_doublecolon_start, best_doublecolon_len, - 1, 0)))"

definition compress_hextets :: "string list \<Rightarrow> string list" where
  "compress_hextets hextets =
     (case foldl compress_step (- 1, 0, - 1, 0) (enumerate 0 hextets) of
        (best_doublecolon_start, best_doublecolon_len, doublecolon_start, doublecolon_len) \<Rightarrow>
          (if 1 < best_doublecolon_len then
             (let best_doublecolon_end = nat best_doublecolon_start + best_doublecolon_len;
                  hextets1 = (if best_doublecolon_end = length hextets then hextets @ [[]]
                              else hextets);
                  hextets2 = take (nat best_doublecolon_start) hextets1 @ [[]] @
                             drop best_doublecolon_end hextets1
              in if best_doublecolon_start = 0 then [] # hextets2 else hextets2)
           else hextets))"

text \<open>\<open>_string_from_ip_int\<close> of IPv6: the eight groups of 16 bits, each written by
  \<open>'%x'\<close>, compressed and joined by colons.\<close>

definition string_from_ip_int_v6 :: "int \<Rightarrow> exn + string" where
  "string_from_ip_int_v6 ip_int =
     (if ALL_ONES_v6 < ip_int then Inl ValueError
      else Inr (join '':''
                  (compress_hextets
                     (map (\<lambda>k. hex_str (nat (drop_bit (16 * k) ip_int AND 0xFFFF)))
                        [7, 6, 5, 4, 3, 2, 1, 0]))))"

subsection \<open>\<open>ip_interface\<close>\<close>

text \<open>The value of \<open>ip_interface\<close> is an interface of one of the two versions, and its
  attribute \<open>network\<close> a network of the same version. Python's \<open>==\<close> on two networks
  holds when the versions, the network addresses and the netmasks are equal: it is the
  equality of these values.\<close>

datatype ip_network =
    Network_v4 ipv4_network
  | Network_v6 ipv6_network

datatype ip_iface =
    Interface_v4 ipv4_interface
  | Interface_v6 ipv6_interface

fun network_of :: "ip_iface \<Rightarrow> ip_network" where
  "network_of (Interface_v4 v) = Network_v4 (network v)"
| "network_of (Interface_v6 v) = Network_v6 (network_v6 v)"

text \<open>\<open>ip_interface(address)\<close>: the two attempts, each given up on \<open>AddressValueError\<close>
  and \<open>NetmaskValueError\<close> only.\<close>

definition ip_interface :: "string \<Rightarrow> exn + ip_iface" where
  "ip_interface address =
     (case IPv4Interface address of
        Inr v \<Rightarrow> Inr (Interface_v4 v)
      | Inl e \<Rightarrow>
          (if e \<noteq> AddressValueError \<and> e \<noteq> NetmaskValueError then Inl e
           else (case IPv6Interface address of
                   Inr v \<Rightarrow> Inr (Interface_v6 v)
                 | Inl e' \<Rightarrow>
                     (if e' \<noteq> AddressValueError \<and> e' \<noteq> NetmaskValueError then Inl e'
                      else Inl ValueError))))"

text \<open>\<open>str(interface)\<close>: the address, with \<open>%\<close> and the scope when an IPv6 address has a
  scope that is not empty, a slash and the prefix length.\<close>

fun str_interface :: "ip_iface \<Rightarrow> exn + string" where
  "str_interface (Interface_v4 v) = Inr (string_from_ip_int (ip v) @ ''/'' @ str_nat (prefixlen v))"
| "str_interface (Interface_v6 v) =
     (case string_from_ip_int_v6 (ip_v6 (address_v6 v)) of
        Inl e \<Rightarrow> Inl e
      | Inr ip_str \<Rightarrow>
          Inr ((case scope_id (address_v6 v) of
                  Some scope \<Rightarrow> if scope \<noteq> [] then ip_str @ ''%'' @ scope else ip_str
                | None \<Rightarrow> ip_str) @ ''/'' @ str_nat (prefixlen_v6 v)))"

section \<open>The data of a run\<close>

subsection \<open>Declarative intent: the config context of a device\<close>

text \<open>
  \<open>config_vars\<close> is the JSON document the header of the script shows: \<open>bgp\<close> with its
  ordered \<open>neighbors\<close>, and \<open>interfaces\<close>, a dictionary from the interface name to its
  description, its \<open>ipaddr\<close> (the text \<open>address mask\<close>) and its state.
\<close>

record bgp_neighbor =
  neighbor_ipaddr :: string
  remote_asn :: int

record bgp_intent =
  asn :: int
  neighbors :: "bgp_neighbor list"
  networks :: "(string \<times> string) list"
  rid :: string

record interface_intent =
  intent_description :: string
  ipaddr :: string
  intent_state :: string

record config_vars =
  bgp :: bgp_intent
  interfaces :: "(string \<times> interface_intent) list"

subsection \<open>Observed facts: what the device transport returns\<close>

text \<open>A \<open>napalm_ping\<close> result is a dictionary with the key \<open>success\<close> (whose value holds
  \<open>packet_loss\<close>) or without it (the key \<open>error\<close> instead).\<close>

record ping_success =
  probes_sent :: int
  packet_loss :: int

record ping_result =
  success :: "ping_success option"

text \<open>The transport's answer to the \<open>k\<close>-th probe of a task, sent to \<open>dest\<close> from
  \<open>source\<close>: a result, or \<open>None\<close> when the subtask fails, which makes \<open>task.run\<close>
  raise \<open>NornirSubTaskError\<close>.\<close>

type_synonym napalm_ping = "nat \<Rightarrow> string \<Rightarrow> string \<Rightarrow> ping_result option"

text \<open>The facts of one routing peer (\<open>get_bgp_neighbors\<close>) and of one interface
  (\<open>get_interfaces\<close>); a MAC address is a string, or Python's \<open>None\<close>.\<close>

record peer_facts =
  is_up :: bool
  peer_remote_as :: int

record interface_facts =
  fact_description :: string
  fact_mac_address :: "string option"

section \<open>The connectivity validator: \<open>validate_l3\<close>\<close>

text \<open>The state of one run of the task: the counter \<open>failed_pings\<close>, the probes sent so far
  (destination and source, in the order of the calls of \<open>napalm_ping\<close>) and the texts
  printed.\<close>

record l3_state =
  failed_pings :: int
  pings :: "(string \<times> string) list"
  l3_stdout :: "string list"

definition ping_failed_message :: "string \<Rightarrow> string \<Rightarrow> string \<Rightarrow> string" where
  "ping_failed_message host source destination =
     ''*** '' @ host @ '' ping '' @ source @ '' > '' @ destination @ '' has FAILED *** ''"

text \<open>Lines 302 to 319: the check of one ping result.\<close>

definition check_ping :: "string \<Rightarrow> string \<Rightarrow> string \<Rightarrow> ping_result \<Rightarrow> l3_state \<Rightarrow> l3_state" where
  "check_ping host source destination result st =
     (case success result of
        Some s \<Rightarrow>
          (if packet_loss s < 2 then st
           else st\<lparr>l3_stdout := l3_stdout st @ [c_print (ping_failed_message host source destination)],
                   failed_pings := failed_pings st + 1\<rparr>)
      | None \<Rightarrow>
          st\<lparr>l3_stdout := l3_stdout st @ [c_print (ping_failed_message host source destination)],
              failed_pings := failed_pings st + 1\<rparr>)"

text \<open>Lines 288 to 319: the body of the inner loop, for one neighbour address and one
  interface of the intent. Unpacking the split text into two names raises \<open>ValueError\<close>
  unless it has exactly two fields.\<close>

definition validate_l3_pair ::
  "string \<Rightarrow> napalm_ping \<Rightarrow> string \<Rightarrow> interface_intent \<Rightarrow> l3_state \<Rightarrow> exn + l3_state" where
  "validate_l3_pair host ping destination intf st =
     (case split_on CHR '' '' (ipaddr intf) of
        [source, m] \<Rightarrow>
          (case ip_interface (source @ ''/'' @ m) of
             Inl e \<Rightarrow> Inl e
           | Inr src \<Rightarrow>
               (case ip_interface (destination @ ''/'' @ m) of
                  Inl e \<Rightarrow> Inl e
                | Inr dst \<Rightarrow>
                    (if network_of src = network_of dst then
                       (case ping (length (pings st)) destination source of
                          None \<Rightarrow> Inl NornirSubTaskError
                        | Some result \<Rightarrow>
                            Inr (check_ping host source destination result
                                   (st\<lparr>pings := pings st @ [(destination, source)]\<rparr>)))
                     else Inr st)))
      | _ \<Rightarrow> Inl ValueError)"

text \<open>The inner loop, over the values of the interfaces dictionary.\<close>

fun validate_l3_interfaces ::
  "string \<Rightarrow> napalm_ping \<Rightarrow> string \<Rightarrow> (string \<times> interface_intent) list \<Rightarrow> l3_state
     \<Rightarrow> exn + l3_state" where
  "validate_l3_interfaces host ping destination [] st = Inr st"
| "validate_l3_interfaces host ping destination (kv # rest) st =
     (case validate_l3_pair host ping destination (snd kv) st of
        Inl e \<Rightarrow> Inl e
      | Inr st' \<Rightarrow> validate_l3_interfaces host ping destination rest st')"

text \<open>The outer loop, over the BGP neighbours.\<close>

fun validate_l3_neighbors ::
  "string \<Rightarrow> napalm_ping \<Rightarrow> (string \<times> interface_intent) list \<Rightarrow> bgp_neighbor list \<Rightarrow> l3_state
     \<Rightarrow> exn + l3_state" where
  "validate_l3_neighbors host ping intfs [] st = Inr st"
| "validate_l3_neighbors host ping intfs (neighbor # rest) st =
     (case validate_l3_interfaces host ping (neighbor_ipaddr neighbor) intfs st of
        Inl e \<Rightarrow> Inl e
      | Inr st' \<Rightarrow> validate_l3_neighbors host ping intfs rest st')"

definition all_pings_message :: "string \<Rightarrow> string" where
  "all_pings_message host = ''*** '' @ host @ '': All ping tests have succeeded ***''"

definition validate_l3 :: "string \<Rightarrow> config_vars \<Rightarrow> napalm_ping \<Rightarrow> exn + l3_state" where
  "validate_l3 host cfg ping =
     (case validate_l3_neighbors host ping (interfaces cfg) (neighbors (bgp cfg))
             \<lparr>failed_pings = 0, pings = [], l3_stdout = []\<rparr> of
        Inl e \<Rightarrow> Inl e
      | Inr st \<Rightarrow>
          Inr (if failed_pings st = 0
               then st\<lparr>l3_stdout := l3_stdout st @ [c_print (all_pings_message host)]\<rparr>
               else st))"

subsection \<open>The sample intent of the repository's tests\<close>

text \<open>\<open>tests/config_vars.py\<close>: the config context of the first router of the demo.\<close>

definition cfg :: config_vars where
  "cfg =
     \<lparr>bgp = \<lparr>asn = 65511,
              neighbors = [\<lparr>neighbor_ipaddr = ''172.20.12.2'', remote_asn = 65512\<rparr>,
                           \<lparr>neighbor_ipaddr = ''172.20.13.3'', remote_asn = 65513\<rparr>],
              networks = [],
              rid = ''1.1.1.1''\<rparr>,
      interfaces =
        [(''GigabitEthernet1'',
          \<lparr>intent_description = ''Uplink to CSR-2'', ipaddr = ''172.20.12.1 255.255.255.0'',
             intent_state = ''up''\<rparr>),
         (''GigabitEthernet2'',
          \<lparr>intent_description = ''Uplink to CSR-3'', ipaddr = ''172.20.13.1 255.255.255.0'',
             intent_state = ''up''\<rparr>),
         (''Loopback0'',
          \<lparr>intent_description = ''Router ID'', ipaddr = ''1.1.1.1 255.255.255.255'',
             intent_state = ''up''\<rparr>)]\<rparr>"

text \<open>A transport whose \<open>k\<close>-th probe loses \<open>k + 1\<close> packets: the first probe of a task
  loses one packet, the second loses two.\<close>

definition lossy_ping :: napalm_ping where
  "lossy_ping k dest source = Some \<lparr>success = Some \<lparr>probes_sent = 5, packet_loss = 1 + int k\<rparr>\<rparr>"


subsection \<open>What the validator is to do, in the words of the specification\<close>

text \<open>A probe has failed when the transport reports no success outcome, or success with a
  packet loss of two or more.\<close>

definition probe_failed :: "ping_result \<Rightarrow> bool" where
  "probe_failed r = (case success r of None \<Rightarrow> True | Some s \<Rightarrow> 2 \<le> packet_loss s)"

text \<open>The probes of a list that failed, when the first of them is the \<open>k\<close>-th probe of
  the task.\<close>

fun failed_probes :: "napalm_ping \<Rightarrow> nat \<Rightarrow> (string \<times> string) list \<Rightarrow> (string \<times> string) list" where
  "failed_probes ping k [] = []"
| "failed_probes ping k (p # ps) =
     (case ping k (fst p) (snd p) of
        Some r \<Rightarrow> if probe_failed r then [p] else []
      | None \<Rightarrow> []) @ failed_probes ping (Suc k) ps"

text \<open>The scope of the network of an IPv6 address under a netmask: the scope of the address
  when the address is the network address itself (it has no host bit set), and none
  otherwise, as \<open>IPv6Network\<close> has it.\<close>

definition network_scope :: "ipv6_address \<Rightarrow> int \<Rightarrow> string option" where
  "network_scope a nmask = (if ip_v6 a AND nmask = ip_v6 a then scope_id a else None)"

text \<open>The neighbour's address lies in the network of the local interface: the two are
  addresses of one version, the mask of the local interface is a mask of that version, and
  both addresses, under that mask, have the same network address.\<close>

definition on_interface_network :: "string \<Rightarrow> string \<Rightarrow> bool" where
  "on_interface_network local_ipaddr destination =
     (case split_on CHR '' '' local_ipaddr of
        [source, m] \<Rightarrow>
          (case (ip_int_from_string source, ip_int_from_string destination, make_netmask m) of
             (Inr s, Inr d, Inr (nmask, plen)) \<Rightarrow> s AND nmask = d AND nmask
           | _ \<Rightarrow>
               (case (IPv6Address source, IPv6Address destination, make_netmask_v6 m) of
                  (Inr s, Inr d, Inr (nmask, plen)) \<Rightarrow>
                    ip_v6 s AND nmask = ip_v6 d AND nmask \<and>
                    network_scope s nmask = network_scope d nmask
                | _ \<Rightarrow> False))
      | _ \<Rightarrow> False)"

text \<open>The probe that one neighbour address and one interface call for: none, or one from
  the interface's address to the neighbour's.\<close>

definition pair_probes :: "string \<Rightarrow> interface_intent \<Rightarrow> (string \<times> string) list" where
  "pair_probes destination intf =
     (if on_interface_network (ipaddr intf) destination
      then [(destination, hd (split_on CHR '' '' (ipaddr intf)))] else [])"

text \<open>The lines printed for failed probes.\<close>

definition failed_lines :: "string \<Rightarrow> (string \<times> string) list \<Rightarrow> string list" where
  "failed_lines host ps = map (\<lambda>p. c_print (ping_failed_message host (snd p) (fst p))) ps"

text \<open>The state \<open>st'\<close> is the state \<open>st\<close> after the probes \<open>new\<close> have been sent and
  checked.\<close>

definition l3_extends :: "string \<Rightarrow> napalm_ping \<Rightarrow> l3_state \<Rightarrow> (string \<times> string) list \<Rightarrow> l3_state \<Rightarrow> bool" where
  "l3_extends host ping st new st' =
     (pings st' = pings st @ new \<and>
      failed_pings st' = failed_pings st + int (length (failed_probes ping (length (pings st)) new)) \<and>
      l3_stdout st' = l3_stdout st @ failed_lines host (failed_probes ping (length (pings st)) new))"

subsection \<open>Splitting and parsing\<close>

lemma split_on_not_Nil: "split_on c s \<noteq> []"
  by (induction s) (auto split: list.splits)

lemma split_on_none: "c \<notin> set s \<Longrightarrow> split_on c s = [s]"
  by (induction s) (auto split: list.splits)

lemma split_on_chars:
  "x \<in> set s \<Longrightarrow> x \<noteq> c \<Longrightarrow> \<exists>part \<in> set (split_on c s). x \<in> set part"
proof (induction s)
  case Nil
  then show ?case by simp
next
  case (Cons y ys)
  obtain w ws where w: "split_on c ys = w # ws"
    using split_on_not_Nil [of c ys] by (cases "split_on c ys") auto
  show ?case
  proof (cases "y = c")
    case True
    with Cons show ?thesis by auto
  next
    case False
    with Cons w show ?thesis by (cases "x = y") auto
  qed
qed

lemma try_map_Inr: "try_map f xs = Inr ys \<Longrightarrow> x \<in> set xs \<Longrightarrow> \<exists>y. f x = Inr y"
  by (induction xs arbitrary: ys) (auto split: sum.splits)

lemma parse_octet_digits: "parse_octet w = Inr n \<Longrightarrow> list_all is_digit w"
  by (auto simp: parse_octet_def isdigit_def Let_def split: if_splits)

lemma ip_int_from_string_chars:
  assumes "ip_int_from_string s = Inr n" and "x \<in> set s"
  shows "x = CHR ''.'' \<or> is_digit x"
proof (cases "x = CHR ''.''")
  case True
  then show ?thesis by simp
next
  case False
  from assms(1) obtain bs where t: "try_map parse_octet (split_on CHR ''.'' s) = Inr bs"
    by (auto simp: ip_int_from_string_def Let_def split: if_splits sum.splits)
  from split_on_chars [OF assms(2) False] obtain part where
    p: "part \<in> set (split_on CHR ''.'' s)" and x: "x \<in> set part" by blast
  from try_map_Inr [OF t p] obtain k where "parse_octet part = Inr k" by blast
  from parse_octet_digits [OF this] x show ?thesis by (auto simp: list_all_iff)
qed

lemma ip_int_from_string_error: "ip_int_from_string s = Inl e \<Longrightarrow> e = AddressValueError"
  by (auto simp: ip_int_from_string_def Let_def split: if_splits sum.splits)

lemma ip_int_from_string_no:
  assumes "ip_int_from_string s = Inr n" and "c \<in> set ''/:%''"
  shows "c \<notin> set s"
proof
  assume "c \<in> set s"
  from ip_int_from_string_chars [OF assms(1) this] assms(2) show False
    by (auto simp: is_digit_def)
qed

lemma IPv4Address_eq: "IPv4Address s = ip_int_from_string s"
proof (cases "CHR ''/'' \<in> set s")
  case False
  then show ?thesis by (simp add: IPv4Address_def)
next
  case True
  show ?thesis
  proof (cases "ip_int_from_string s")
    case (Inl e)
    with ip_int_from_string_error [OF Inl] True show ?thesis by (simp add: IPv4Address_def)
  next
    case (Inr n)
    from ip_int_from_string_no [OF Inr, of "CHR ''/''"] True show ?thesis by simp
  qed
qed

lemma IPv6Address_of_v4_text:
  assumes "ip_int_from_string s = Inr n"
  shows "IPv6Address s = Inl AddressValueError"
proof -
  have slash: "CHR ''/'' \<notin> set s" and colon: "CHR '':'' \<notin> set s" and pct: "CHR ''%'' \<notin> set s"
    using ip_int_from_string_no [OF assms] by simp_all
  from pct have tw: "takeWhile (\<lambda>c. c \<noteq> CHR ''%'') s = s" and dw: "dropWhile (\<lambda>c. c \<noteq> CHR ''%'') s = []"
    by (auto simp: takeWhile_eq_all_conv)
  have sc: "split_scope_id s = Inr (s, None)"
    by (simp add: split_scope_id_def tw dw)
  have "ip_int_from_string_v6 s = Inl AddressValueError"
    by (simp add: ip_int_from_string_v6_def split_on_none [OF colon])
  with slash sc show ?thesis by (simp add: IPv6Address_def)
qed

lemma make_netmask_no_slash:
  assumes "make_netmask m = Inr r"
  shows "CHR ''/'' \<notin> set m"
proof (cases "prefix_from_prefix_string m")
  case (Inr p)
  then have "list_all is_digit m"
    by (auto simp: prefix_from_prefix_string_def isdigit_def Let_def split: if_splits)
  then show ?thesis by (auto simp: list_all_iff is_digit_def)
next
  case (Inl e)
  with assms obtain n where "ip_int_from_string m = Inr n"
    by (auto simp: make_netmask_def prefix_from_ip_string_def split: sum.splits)
  from ip_int_from_string_no [OF this] show ?thesis by simp
qed

lemma make_netmask_v6_no_slash:
  assumes "make_netmask_v6 m = Inr r"
  shows "CHR ''/'' \<notin> set m"
proof -
  from assms have "list_all is_digit m"
    by (auto simp: make_netmask_v6_def prefix_from_prefix_string_v6_def isdigit_def Let_def
        split: if_splits sum.splits)
  then show ?thesis by (auto simp: list_all_iff is_digit_def)
qed

lemma split_on_append: "split_on c (a @ c # b) = split_on c a @ split_on c b"
proof (induction a)
  case Nil
  show ?case by simp
next
  case (Cons x xs)
  obtain w ws where w: "split_on c xs = w # ws"
    using split_on_not_Nil [of c xs] by (cases "split_on c xs") auto
  show ?case using Cons w by simp
qed

lemma split_on_single: "length (split_on c s) = 1 \<Longrightarrow> split_on c s = [s]"
proof (induction s)
  case Nil
  show ?case by simp
next
  case (Cons x xs)
  obtain w ws where w: "split_on c xs = w # ws"
    using split_on_not_Nil [of c xs] by (cases "split_on c xs") auto
  show ?case
  proof (cases "x = c")
    case True
    with Cons.prems w show ?thesis by simp
  next
    case False
    with Cons.prems w have "ws = []" by simp
    with Cons.IH w have "w = xs" by simp
    with False w \<open>ws = []\<close> show ?thesis by simp
  qed
qed

lemma split_on_slash_two:
  assumes "length (split_on c (a @ c # b)) \<le> 2"
  shows "split_on c (a @ c # b) = [a, b]"
proof -
  have la: "1 \<le> length (split_on c a)" and lb: "1 \<le> length (split_on c b)"
    using split_on_not_Nil [of c a] split_on_not_Nil [of c b]
    by (simp_all add: Suc_le_eq)
  from assms have "length (split_on c a) + length (split_on c b) \<le> 2"
    by (simp add: split_on_append)
  with la lb have "length (split_on c a) = 1" "length (split_on c b) = 1" by arith+
  then show ?thesis by (simp add: split_on_append split_on_single)
qed

lemma IPv4Interface_slash:
  assumes "IPv4Interface (a @ ''/'' @ m) = Inr v"
  shows "\<exists>addr nmask plen. ip_int_from_string a = Inr addr \<and> make_netmask m = Inr (nmask, plen) \<and>
           v = \<lparr>ip = addr, network = \<lparr>network_address = addr AND nmask, net_netmask = nmask\<rparr>,
                prefixlen = plen\<rparr>"
proof -
  have len: "length (split_on CHR ''/'' (a @ CHR ''/'' # m)) \<le> 2"
    using assms by (auto simp: IPv4Interface_def Let_def split: if_splits)
  then have parts: "split_on CHR ''/'' (a @ CHR ''/'' # m) = [a, m]"
    by (rule split_on_slash_two)
  show ?thesis
    using assms unfolding IPv4Interface_def Let_def IPv4Address_eq
    by (simp add: parts split: sum.splits prod.splits)
qed

text \<open>Conversely, an address and a mask that are read as IPv4 make an \<open>IPv4Interface\<close>.\<close>

lemma IPv4Interface_complete:
  assumes a: "ip_int_from_string a = Inr addr" and m: "make_netmask m = Inr (nmask, plen)"
  shows "\<exists>v. IPv4Interface (a @ ''/'' @ m) = Inr v"
proof -
  have "CHR ''/'' \<notin> set a" using ip_int_from_string_no [OF a] by simp
  moreover have "CHR ''/'' \<notin> set m" by (rule make_netmask_no_slash [OF m])
  ultimately have parts: "split_on CHR ''/'' (a @ CHR ''/'' # m) = [a, m]"
    by (simp add: split_on_append split_on_none)
  show ?thesis
    unfolding IPv4Interface_def Let_def IPv4Address_eq
    by (simp add: parts a m)
qed

lemma IPv6Interface_slash:
  assumes "IPv6Interface (a @ ''/'' @ m) = Inr v"
  shows "\<exists>addr nmask plen. IPv6Address a = Inr addr \<and> make_netmask_v6 m = Inr (nmask, plen) \<and>
           network_v6 v =
             \<lparr>network_address_v6 =
                \<lparr>ip_v6 = ip_v6 addr AND nmask, scope_id = network_scope addr nmask\<rparr>,
              net_netmask_v6 = nmask\<rparr>"
proof -
  have len: "length (split_on CHR ''/'' (a @ CHR ''/'' # m)) \<le> 2"
    using assms by (auto simp: IPv6Interface_def Let_def split: if_splits)
  then have parts: "split_on CHR ''/'' (a @ CHR ''/'' # m) = [a, m]"
    by (rule split_on_slash_two)
  show ?thesis
    using assms unfolding IPv6Interface_def Let_def
    by (auto simp: parts network_scope_def split: sum.splits prod.splits)
qed

text \<open>The interface that \<open>ip_interface\<close> returns for \<open>address/mask\<close>: an IPv4 interface
  when the address and the mask are read as IPv4, and an IPv6 interface when that fails and
  both are read as IPv6.\<close>

lemma ip_interface_slash:
  assumes "ip_interface (a @ ''/'' @ m) = Inr v"
  shows "(\<exists>addr nmask plen.
            ip_int_from_string a = Inr addr \<and> make_netmask m = Inr (nmask, plen) \<and>
            network_of v =
              Network_v4 \<lparr>network_address = addr AND nmask, net_netmask = nmask\<rparr>) \<or>
         (\<not> (\<exists>addr r. ip_int_from_string a = Inr addr \<and> make_netmask m = Inr r) \<and>
          (\<exists>addr nmask plen.
            IPv6Address a = Inr addr \<and> make_netmask_v6 m = Inr (nmask, plen) \<and>
            network_of v =
              Network_v6
                \<lparr>network_address_v6 =
                   \<lparr>ip_v6 = ip_v6 addr AND nmask, scope_id = network_scope addr nmask\<rparr>,
                 net_netmask_v6 = nmask\<rparr>))"
proof (cases "IPv4Interface (a @ ''/'' @ m)")
  case (Inr v4)
  with assms have v: "v = Interface_v4 v4" by (simp add: ip_interface_def)
  from IPv4Interface_slash [OF Inr] v show ?thesis by auto
next
  case (Inl e)
  with assms obtain v6 where
    six: "IPv6Interface (a @ ''/'' @ m) = Inr v6" and v: "v = Interface_v6 v6"
    by (auto simp: ip_interface_def split: if_splits sum.splits)
  have "\<not> (\<exists>addr r. ip_int_from_string a = Inr addr \<and> make_netmask m = Inr r)"
  proof
    assume "\<exists>addr r. ip_int_from_string a = Inr addr \<and> make_netmask m = Inr r"
    then obtain addr nmask plen where
      "ip_int_from_string a = Inr addr" "make_netmask m = Inr (nmask, plen)" by auto
    from IPv4Interface_complete [OF this] Inl show False by simp
  qed
  with IPv6Interface_slash [OF six] v show ?thesis by auto
qed

subsection \<open>The two loops, by induction\<close>

lemma failed_probes_append:
  "failed_probes ping k (xs @ ys) = failed_probes ping k xs @ failed_probes ping (k + length xs) ys"
  by (induction xs arbitrary: k) auto

lemma l3_extends_refl: "l3_extends host ping st [] st"
  by (simp add: l3_extends_def failed_lines_def)

lemma l3_extends_trans:
  "l3_extends host ping st xs st' \<Longrightarrow> l3_extends host ping st' ys st'' \<Longrightarrow>
   l3_extends host ping st (xs @ ys) st''"
  by (simp add: l3_extends_def failed_lines_def failed_probes_append)

lemma check_ping_extends:
  assumes "ping (length (pings st)) d s = Some r"
  shows "l3_extends host ping st [(d, s)]
           (check_ping host s d r (st\<lparr>pings := pings st @ [(d, s)]\<rparr>))"
  using assms
  by (simp add: l3_extends_def failed_lines_def check_ping_def probe_failed_def split: option.splits)

text \<open>The test of \<open>validate_l3\<close> on the two networks is the membership of the neighbour's
  address in the network of the interface.\<close>

lemma networks_equal_iff:
  assumes sp: "split_on CHR '' '' local_ipaddr = [source, m]"
    and src: "ip_interface (source @ ''/'' @ m) = Inr src"
    and dst: "ip_interface (d @ ''/'' @ m) = Inr dst"
  shows "(network_of src = network_of dst) = on_interface_network local_ipaddr d"
proof -
  let ?v4 = "\<lambda>t. \<exists>addr r. ip_int_from_string t = Inr addr \<and> make_netmask m = Inr r"
  note s = ip_interface_slash [OF src] and t = ip_interface_slash [OF dst]
  show ?thesis
  proof (cases "?v4 source")
    case True
    with s obtain a nmask plen where
      a: "ip_int_from_string source = Inr a" and nm: "make_netmask m = Inr (nmask, plen)" and
      nsrc: "network_of src = Network_v4 \<lparr>network_address = a AND nmask, net_netmask = nmask\<rparr>"
      by auto
    show ?thesis
    proof (cases "?v4 d")
      case True
      with t nm obtain b where
        b: "ip_int_from_string d = Inr b" and
        ndst: "network_of dst = Network_v4 \<lparr>network_address = b AND nmask, net_netmask = nmask\<rparr>"
        by auto
      show ?thesis by (simp add: on_interface_network_def sp a b nm nsrc ndst)
    next
      case False
      with t obtain n6 where ndst: "network_of dst = Network_v6 n6" by auto
      from False nm have b: "\<exists>e. ip_int_from_string d = Inl e"
        by (cases "ip_int_from_string d") auto
      have "\<not> on_interface_network local_ipaddr d"
        using b by (auto simp: on_interface_network_def sp a nm IPv6Address_of_v4_text [OF a])
      with nsrc ndst show ?thesis by simp
    qed
  next
    case False
    with s obtain a nmask plen where
      a: "IPv6Address source = Inr a" and nm: "make_netmask_v6 m = Inr (nmask, plen)" and
      nsrc: "network_of src =
        Network_v6
          \<lparr>network_address_v6 = \<lparr>ip_v6 = ip_v6 a AND nmask, scope_id = network_scope a nmask\<rparr>,
           net_netmask_v6 = nmask\<rparr>"
      by auto
    have four: "(case (ip_int_from_string source, ip_int_from_string d, make_netmask m) of
                   (Inr s, Inr d, Inr (nmask, plen)) \<Rightarrow> f s d nmask
                 | _ \<Rightarrow> g) = g" for f and g :: bool
      using False by (auto split: sum.splits prod.splits)
    show ?thesis
    proof (cases "?v4 d")
      case True
      with t obtain b n4 where b: "ip_int_from_string d = Inr b" and
        ndst: "network_of dst = Network_v4 n4" by auto
      have "\<not> on_interface_network local_ipaddr d"
        unfolding on_interface_network_def sp list.case four
        by (simp add: a nm IPv6Address_of_v4_text [OF b])
      with nsrc ndst show ?thesis by simp
    next
      case no: False
      with t nm obtain b where
        b: "IPv6Address d = Inr b" and
        ndst: "network_of dst =
          Network_v6
            \<lparr>network_address_v6 = \<lparr>ip_v6 = ip_v6 b AND nmask, scope_id = network_scope b nmask\<rparr>,
             net_netmask_v6 = nmask\<rparr>"
        by auto
      have "on_interface_network local_ipaddr d =
              (ip_v6 a AND nmask = ip_v6 b AND nmask \<and> network_scope a nmask = network_scope b nmask)"
        unfolding on_interface_network_def sp list.case four
        by (simp add: a b nm)
      with nsrc ndst show ?thesis by simp
    qed
  qed
qed

lemma validate_l3_pair_extends:
  assumes "validate_l3_pair host ping d intf st = Inr st'"
  shows "l3_extends host ping st (pair_probes d intf) st'"
proof -
  from assms obtain source m where sp: "split_on CHR '' '' (ipaddr intf) = [source, m]"
    by (auto simp: validate_l3_pair_def split: list.splits)
  from assms sp obtain src dst where
    src: "ip_interface (source @ ''/'' @ m) = Inr src" and dst: "ip_interface (d @ ''/'' @ m) = Inr dst"
    by (auto simp: validate_l3_pair_def split: sum.splits)
  note same = networks_equal_iff [OF sp src dst]
  show ?thesis
  proof (cases "network_of src = network_of dst")
    case True
    with assms sp src dst obtain r where
      r: "ping (length (pings st)) d source = Some r" and
      st': "st' = check_ping host source d r (st\<lparr>pings := pings st @ [(d, source)]\<rparr>)"
      by (auto simp: validate_l3_pair_def split: option.splits)
    have "pair_probes d intf = [(d, source)]"
      using True same by (simp add: pair_probes_def sp)
    with check_ping_extends [of ping st d source r host, OF r] st' show ?thesis by simp
  next
    case False
    with assms sp src dst have "st' = st" by (simp add: validate_l3_pair_def)
    moreover have "pair_probes d intf = []" using False same by (simp add: pair_probes_def)
    ultimately show ?thesis by (simp add: l3_extends_refl)
  qed
qed

lemma validate_l3_interfaces_extends:
  "validate_l3_interfaces host ping d intfs st = Inr st' \<Longrightarrow>
   l3_extends host ping st (concat (map (\<lambda>kv. pair_probes d (snd kv)) intfs)) st'"
proof (induction intfs arbitrary: st)
  case Nil
  then show ?case by (simp add: l3_extends_refl)
next
  case (Cons kv rest)
  from Cons.prems obtain st1 where
    one: "validate_l3_pair host ping d (snd kv) st = Inr st1" and
    more: "validate_l3_interfaces host ping d rest st1 = Inr st'"
    by (auto split: sum.splits)
  from l3_extends_trans [OF validate_l3_pair_extends [OF one] Cons.IH [OF more]]
  show ?case by simp
qed

lemma validate_l3_neighbors_extends:
  "validate_l3_neighbors host ping intfs nbrs st = Inr st' \<Longrightarrow>
   l3_extends host ping st
     (concat (map (\<lambda>n. concat (map (\<lambda>kv. pair_probes (neighbor_ipaddr n) (snd kv)) intfs)) nbrs)) st'"
proof (induction nbrs arbitrary: st)
  case Nil
  then show ?case by (simp add: l3_extends_refl)
next
  case (Cons n rest)
  from Cons.prems obtain st1 where
    one: "validate_l3_interfaces host ping (neighbor_ipaddr n) intfs st = Inr st1" and
    more: "validate_l3_neighbors host ping intfs rest st1 = Inr st'"
    by (auto split: sum.splits)
  from l3_extends_trans [OF validate_l3_interfaces_extends [OF one] Cons.IH [OF more]]
  show ?case by simp
qed

lemma validate_l3_extends:
  assumes "validate_l3 host cfg' ping = Inr st"
  shows "pings st =
           concat (map (\<lambda>n. concat (map (\<lambda>kv. pair_probes (neighbor_ipaddr n) (snd kv))
                                      (interfaces cfg'))) (neighbors (bgp cfg')))"
    and "failed_pings st = int (length (failed_probes ping 0 (pings st)))"
    and "l3_stdout st = failed_lines host (failed_probes ping 0 (pings st)) @
           (if failed_pings st = 0 then [c_print (all_pings_message host)] else [])"
proof -
  let ?st0 = "\<lparr>failed_pings = 0, pings = [], l3_stdout = []\<rparr>"
  from assms obtain st1 where
    loops: "validate_l3_neighbors host ping (interfaces cfg') (neighbors (bgp cfg')) ?st0 = Inr st1"
    and st: "st = (if failed_pings st1 = 0
                   then st1\<lparr>l3_stdout := l3_stdout st1 @ [c_print (all_pings_message host)]\<rparr>
                   else st1)"
    by (auto simp: validate_l3_def split: sum.splits)
  from validate_l3_neighbors_extends [OF loops]
  have ext: "pings st1 =
           concat (map (\<lambda>n. concat (map (\<lambda>kv. pair_probes (neighbor_ipaddr n) (snd kv))
                                      (interfaces cfg'))) (neighbors (bgp cfg')))"
    "failed_pings st1 = int (length (failed_probes ping 0 (pings st1)))"
    "l3_stdout st1 = failed_lines host (failed_probes ping 0 (pings st1))"
    by (simp_all add: l3_extends_def)
  show "pings st =
           concat (map (\<lambda>n. concat (map (\<lambda>kv. pair_probes (neighbor_ipaddr n) (snd kv))
                                      (interfaces cfg'))) (neighbors (bgp cfg')))"
    using ext(1) st by simp
  show "failed_pings st = int (length (failed_probes ping 0 (pings st)))"
    using ext(2) st by simp
  show "l3_stdout st = failed_lines host (failed_probes ping 0 (pings st)) @
           (if failed_pings st = 0 then [c_print (all_pings_message host)] else [])"
    using ext(3) st by simp
qed

subsection \<open>Evaluating the validator on the sample intent\<close>

text \<open>The definitions of the \<open>ipaddress\<close> model, for evaluation by the simplifier.\<close>

lemmas ipaddress_defs =
  ip_interface_def IPv4Interface_def IPv4Address_def ip_int_from_string_def parse_octet_def isdigit_def
  is_digit_def int_of_str_def digit_value_def from_bytes_def make_netmask_def
  prefix_from_prefix_string_def prefix_from_ip_string_def prefix_from_ip_int_def
  count_righthand_zero_bits_def ip_int_from_prefix_def ALL_ONES_def bit_length.simps Let_def

lemma validate_l3_cfg:
  "validate_l3 ''csr1'' cfg lossy_ping =
     Inr \<lparr>failed_pings = 1,
           pings = [(''172.20.12.2'', ''172.20.12.1''), (''172.20.13.3'', ''172.20.13.1'')],
           l3_stdout = [c_print (ping_failed_message ''csr1'' ''172.20.13.1'' ''172.20.13.3'')]\<rparr>"
  by (simp add: validate_l3_def cfg_def lossy_ping_def validate_l3_pair_def check_ping_def
      ipaddress_defs)

text \<open>With a transport that loses no packet, the only line printed is the report of
  success.\<close>

definition clean_ping :: napalm_ping where
  "clean_ping k dest source = Some \<lparr>success = Some \<lparr>probes_sent = 5, packet_loss = 0\<rparr>\<rparr>"

lemma validate_l3_cfg_clean:
  "validate_l3 ''csr1'' cfg clean_ping =
     Inr \<lparr>failed_pings = 0,
           pings = [(''172.20.12.2'', ''172.20.12.1''), (''172.20.13.3'', ''172.20.13.1'')],
           l3_stdout = [c_print (all_pings_message ''csr1'')]\<rparr>"
  by (simp add: validate_l3_def cfg_def clean_ping_def validate_l3_pair_def check_ping_def
      ipaddress_defs)


subsection \<open>Probes and subnet membership\<close>



subsection \<open>Classification of a probe\<close>

text \<open>
  Claim C2. Checking a probe result adds one to the counter of failed probes exactly when
  the result has no \<open>success\<close> key, or has one with a packet loss of two or more: a loss
  of one packet passes, a loss of two fails. When \<open>validate_l3\<close> returns, the counter is
  the number of failed probes, one line is printed for each of them, and the report that
  all ping tests have succeeded is printed exactly when the counter is zero.
\<close>

theorem check_ping_classification:
  "failed_pings (check_ping host source destination result st) =
     failed_pings st +
       (if success result = None \<or> (\<exists>s. success result = Some s \<and> 2 \<le> packet_loss s) then 1 else 0) \<and>
   failed_pings (check_ping host source destination
       \<lparr>success = Some \<lparr>probes_sent = n, packet_loss = 1\<rparr>\<rparr> st) = failed_pings st \<and>
   failed_pings (check_ping host source destination
       \<lparr>success = Some \<lparr>probes_sent = n, packet_loss = 2\<rparr>\<rparr> st) = failed_pings st + 1 \<and>
   (validate_l3 host cfg' ping = Inr st' \<longrightarrow>
      failed_pings st' = int (length (failed_probes ping 0 (pings st'))) \<and>
      l3_stdout st' = failed_lines host (failed_probes ping 0 (pings st')) @
         (if failed_pings st' = 0 then [c_print (all_pings_message host)] else []))"
proof -
  have "failed_pings (check_ping host source destination result st) =
     failed_pings st +
       (if success result = None \<or> (\<exists>s. success result = Some s \<and> 2 \<le> packet_loss s) then 1 else 0)"
    by (cases "success result") (auto simp: check_ping_def)
  moreover have "failed_pings (check_ping host source destination
       \<lparr>success = Some \<lparr>probes_sent = n, packet_loss = 1\<rparr>\<rparr> st) = failed_pings st"
    by (simp add: check_ping_def)
  moreover have "failed_pings (check_ping host source destination
       \<lparr>success = Some \<lparr>probes_sent = n, packet_loss = 2\<rparr>\<rparr> st) = failed_pings st + 1"
    by (simp add: check_ping_def)
  ultimately show ?thesis
    using validate_l3_extends(2,3) [of host cfg' ping st'] by blast
qed

theorem check_ping_classification_witness:
  "failed_lines ''csr1'' (failed_probes lossy_ping 0
       [(''172.20.12.2'', ''172.20.12.1''), (''172.20.13.3'', ''172.20.13.1'')]) @
     (if (1::int) = 0 then [c_print (all_pings_message ''csr1'')] else []) =
     [c_print (ping_failed_message ''csr1'' ''172.20.13.1'' ''172.20.13.3'')] \<and>
   failed_lines ''csr1'' (failed_probes clean_ping 0
       [(''172.20.12.2'', ''172.20.12.1''), (''172.20.13.3'', ''172.20.13.1'')]) @
     (if (0::int) = 0 then [c_print (all_pings_message ''csr1'')] else []) =
     [c_print (all_pings_message ''csr1'')]"
proof -
  note lossy =
    check_ping_classification [where host = "''csr1''" and cfg' = cfg and ping = lossy_ping,
      THEN conjunct2, THEN conjunct2, THEN conjunct2, THEN mp, OF validate_l3_cfg]
  note clean =
    check_ping_classification [where host = "''csr1''" and cfg' = cfg and ping = clean_ping,
      THEN conjunct2, THEN conjunct2, THEN conjunct2, THEN mp, OF validate_l3_cfg_clean]
  have "failed_lines ''csr1'' (failed_probes lossy_ping 0
       [(''172.20.12.2'', ''172.20.12.1''), (''172.20.13.3'', ''172.20.13.1'')]) @
     (if (1::int) = 0 then [c_print (all_pings_message ''csr1'')] else []) =
     [c_print (ping_failed_message ''csr1'' ''172.20.13.1'' ''172.20.13.3'')]"
    using lossy [THEN conjunct2] by simp
  moreover
  have "failed_lines ''csr1'' (failed_probes clean_ping 0
       [(''172.20.12.2'', ''172.20.12.1''), (''172.20.13.3'', ''172.20.13.1'')]) @
     (if (0::int) = 0 then [c_print (all_pings_message ''csr1'')] else []) =
     [c_print (all_pings_message ''csr1'')]"
    using clean [THEN conjunct2] by simp
  ultimately show ?thesis by simp
qed

section \<open>The adjacency classifier: \<open>validate_bgp\<close>\<close>

definition bgp_up_message :: "string \<Rightarrow> string \<Rightarrow> string" where
  "bgp_up_message host peer = ''*** '' @ host @ '': BGP peer '' @ peer @ '' is UP ***''"

definition bgp_down_message :: "string \<Rightarrow> string \<Rightarrow> string" where
  "bgp_down_message host peer = ''*** '' @ host @ '': BGP peer '' @ peer @ '' is DOWN ***''"

text \<open>Lines 349 to 355: the body of the loop, for one item of the peers dictionary; the
  two tests \<open>bgp_status == True\<close> and \<open>bgp_status == False\<close> follow each other.\<close>

definition validate_bgp_peer :: "string \<Rightarrow> string \<times> peer_facts \<Rightarrow> string list \<Rightarrow> string list" where
  "validate_bgp_peer host peer out =
     (let bgp_status = is_up (snd peer);
          out1 = (if bgp_status = True then out @ [c_print (bgp_up_message host (fst peer))]
                  else out)
      in if bgp_status = False then out1 @ [c_print (bgp_down_message host (fst peer))]
         else out1)"

fun validate_bgp_peers :: "string \<Rightarrow> (string \<times> peer_facts) list \<Rightarrow> string list \<Rightarrow> string list" where
  "validate_bgp_peers host [] out = out"
| "validate_bgp_peers host (peer # rest) out =
     validate_bgp_peers host rest (validate_bgp_peer host peer out)"

text \<open>The task: \<open>bgp_result\<close> is the transport's answer to \<open>get_bgp_neighbors\<close>, the peers of the
  global routing table in the order of the dictionary, or \<open>None\<close> when the subtask fails.
  The task returns the texts it has printed.\<close>

definition validate_bgp :: "string \<Rightarrow> (string \<times> peer_facts) list option \<Rightarrow> exn + string list" where
  "validate_bgp host bgp_result =
     (case bgp_result of
        None \<Rightarrow> Inl NornirSubTaskError
      | Some peers \<Rightarrow> Inr (validate_bgp_peers host peers []))"

subsection \<open>The classification, in the words of the specification\<close>

datatype adjacency_state = Up | Down

definition classify :: "peer_facts \<Rightarrow> adjacency_state" where
  "classify facts = (if is_up facts then Up else Down)"

definition adjacency_line :: "string \<Rightarrow> string \<Rightarrow> adjacency_state \<Rightarrow> string" where
  "adjacency_line host peer state =
     (case state of
        Up \<Rightarrow> c_print (bgp_up_message host peer)
      | Down \<Rightarrow> c_print (bgp_down_message host peer))"

lemma validate_bgp_peers_lines:
  "validate_bgp_peers host peers out =
     out @ map (\<lambda>peer. adjacency_line host (fst peer) (classify (snd peer))) peers"
  by (induction peers arbitrary: out)
     (simp_all add: validate_bgp_peer_def adjacency_line_def classify_def)

text \<open>
  Claim C8. The task prints one line for every peer of the fetched facts, in their order,
  and nothing else: the line of an Up peer when \<open>is_up\<close> is true and the line of a Down
  peer when it is false. The classification reads no other field, and there is no third
  state.
\<close>

theorem validate_bgp_projection:
  "validate_bgp host (Some peers) =
     Inr (map (\<lambda>peer. adjacency_line host (fst peer) (classify (snd peer))) peers) \<and>
   classify (facts\<lparr>is_up := True\<rparr>) = Up \<and>
   classify (facts\<lparr>is_up := False\<rparr>) = Down \<and>
   classify facts = (if is_up facts then Up else Down) \<and>
   validate_bgp host (Some [(peer, facts\<lparr>is_up := True\<rparr>)]) = Inr [c_print (bgp_up_message host peer)] \<and>
   validate_bgp host (Some [(peer, facts\<lparr>is_up := False\<rparr>)]) = Inr [c_print (bgp_down_message host peer)]"
  by (simp add: validate_bgp_def validate_bgp_peers_lines classify_def adjacency_line_def)

section \<open>The inventory\<close>

subsection \<open>Records of the inventory\<close>

text \<open>
  The script reads and writes the inventory through the \<open>python-netbox\<close> client. The
  records are the JSON objects of the NetBox API with the keys the script reads or writes:
  a device (\<open>id\<close>, \<open>name\<close>, the type, role and site that \<open>update_device\<close> sets, and
  \<open>local_context_data\<close>), an interface (\<open>id\<close>, \<open>name\<close>, the nested \<open>device\<close> with its
  \<open>id\<close> and \<open>display_name\<close>, the type, \<open>description\<close> and \<open>mac_address\<close>) and an IP
  address (\<open>id\<close>, \<open>address\<close> and the \<open>interface\<close> it is attached to).
\<close>

record nb_device =
  device_ident :: nat
  device_name :: string
  device_type :: nat
  device_role :: nat
  device_site :: nat
  local_context_data :: config_vars

record nested_device =
  nested_id :: nat
  display_name :: string

record nb_interface =
  interface_id :: nat
  interface_name :: string
  device :: nested_device
  interface_type :: nat
  description :: string
  mac_address :: "string option"

record nb_ip_address =
  ip_address_id :: nat
  address :: string
  interface :: nat

text \<open>The requests that change the inventory, with their arguments.\<close>

datatype nb_request =
    CreateInterface string nat nat string "string option"
  | UpdateInterface string string string "string option"
  | CreateIpAddress string nat
  | UpdateDevice string nat nat nat

text \<open>The inventory: its three tables, and the changing requests it has received.\<close>

record netbox =
  devices :: "nb_device list"
  dcim_interfaces :: "nb_interface list"
  ip_addresses :: "nb_ip_address list"
  requests :: "nb_request list"

subsection \<open>The client's operations\<close>

text \<open>
  Modelled from the spec: the Source-of-Truth Client (the \<open>python-netbox\<close> library and
  the NetBox server behind it are not files of the repository). The specification gives the
  capability as device lookup by name and by id, interface list, create and update by
  device and name, IP-address lookup by literal address and create, and device update; an
  interface is keyed by device and name, an IP record by its literal address string. The
  inventory itself refuses no create of a duplicate: keeping the keys unique is the work of
  the script. A lookup that the client indexes with \<open>[0]\<close> raises \<open>IndexError\<close> when
  nothing matches.
\<close>

definition fresh_id :: "nat list \<Rightarrow> nat" where
  "fresh_id ids = Suc (fold max ids 0)"

text \<open>The first element of a list that satisfies \<open>P\<close> is replaced by its image under
  \<open>f\<close>; \<open>None\<close> when no element satisfies \<open>P\<close>.\<close>

fun update_first :: "('a \<Rightarrow> bool) \<Rightarrow> ('a \<Rightarrow> 'a) \<Rightarrow> 'a list \<Rightarrow> 'a list option" where
  "update_first P f [] = None"
| "update_first P f (x # xs) =
     (if P x then Some (f x # xs)
      else (case update_first P f xs of None \<Rightarrow> None | Some ys \<Rightarrow> Some (x # ys)))"

definition get_devices_by_name :: "netbox \<Rightarrow> string \<Rightarrow> nb_device list" where
  "get_devices_by_name netbox name = filter (\<lambda>d. device_name d = name) (devices netbox)"

definition get_devices_by_id :: "netbox \<Rightarrow> nat \<Rightarrow> nb_device list" where
  "get_devices_by_id netbox ident = filter (\<lambda>d. device_ident d = ident) (devices netbox)"

definition get_interfaces :: "netbox \<Rightarrow> nat \<Rightarrow> nb_interface list" where
  "get_interfaces netbox dev_id =
     filter (\<lambda>i. nested_id (device i) = dev_id) (dcim_interfaces netbox)"

definition create_interface ::
  "string \<Rightarrow> nat \<Rightarrow> nat \<Rightarrow> string \<Rightarrow> string option \<Rightarrow> netbox \<Rightarrow> exn + netbox" where
  "create_interface name dev_id itype descr mac netbox =
     (case get_devices_by_id netbox dev_id of
        [] \<Rightarrow> Inl CreateException
      | d # ds \<Rightarrow>
          Inr (netbox\<lparr>dcim_interfaces := dcim_interfaces netbox @
                     [\<lparr>interface_id = fresh_id (map interface_id (dcim_interfaces netbox)),
                       interface_name = name,
                       device = \<lparr>nested_id = dev_id, display_name = device_name d\<rparr>,
                       interface_type = itype,
                       description = descr,
                       mac_address = mac\<rparr>],
                  requests := requests netbox @ [CreateInterface name dev_id itype descr mac]\<rparr>))"

definition update_interface ::
  "string \<Rightarrow> string \<Rightarrow> string \<Rightarrow> string option \<Rightarrow> netbox \<Rightarrow> exn + netbox" where
  "update_interface dev_name name descr mac netbox =
     (case update_first (\<lambda>i. interface_name i = name \<and> display_name (device i) = dev_name)
             (\<lambda>i. i\<lparr>description := descr, mac_address := mac\<rparr>) (dcim_interfaces netbox) of
        None \<Rightarrow> Inl IndexError
      | Some table \<Rightarrow>
          Inr (netbox\<lparr>dcim_interfaces := table,
                  requests := requests netbox @ [UpdateInterface dev_name name descr mac]\<rparr>))"

definition get_ip_addresses :: "netbox \<Rightarrow> string \<Rightarrow> nb_ip_address list" where
  "get_ip_addresses netbox addr = filter (\<lambda>r. address r = addr) (ip_addresses netbox)"

definition create_ip_address :: "string \<Rightarrow> nat \<Rightarrow> netbox \<Rightarrow> netbox" where
  "create_ip_address addr intf_id netbox =
     netbox\<lparr>ip_addresses := ip_addresses netbox @
            [\<lparr>ip_address_id = fresh_id (map ip_address_id (ip_addresses netbox)),
              address = addr,
              interface = intf_id\<rparr>],
        requests := requests netbox @ [CreateIpAddress addr intf_id]\<rparr>"

definition update_device :: "string \<Rightarrow> nat \<Rightarrow> nat \<Rightarrow> nat \<Rightarrow> netbox \<Rightarrow> exn + netbox" where
  "update_device dev_name dtype drole dsite netbox =
     (case update_first (\<lambda>d. device_name d = dev_name)
             (\<lambda>d. d\<lparr>device_type := dtype, device_role := drole, device_site := dsite\<rparr>)
             (devices netbox) of
        None \<Rightarrow> Inl IndexError
      | Some table \<Rightarrow>
          Inr (netbox\<lparr>devices := table,
                  requests := requests netbox @ [UpdateDevice dev_name dtype drole dsite]\<rparr>))"

section \<open>The reconciliation engine: \<open>update_netbox\<close>\<close>

subsection \<open>The scratch data of a host, and the device behind it\<close>

text \<open>\<open>task.host\<close>: the name of the host, and the values the tasks store under the keys
  \<open>device_id\<close>, \<open>config_vars\<close>, \<open>nb_interfaces\<close>, \<open>interfaces\<close> and \<open>device_info\<close>.\<close>

record host_data =
  host_name :: string
  device_id :: nat
  config_vars :: config_vars
  nb_interfaces :: "nb_interface list"
  host_interfaces :: "(string \<times> interface_facts) list"
  device_info :: "(string \<times> string) list"

text \<open>The device, as \<open>napalm_get\<close> sees it during one task: the answer of the getter
  \<open>interfaces\<close> (a dictionary from the interface name to its facts, in its order) and of
  the getter \<open>facts\<close>; \<open>None\<close> when the subtask fails.\<close>

record device_transport =
  napalm_interfaces :: "(string \<times> interface_facts) list option"
  napalm_facts :: "(string \<times> string) list option"

text \<open>What a task works on besides \<open>task.host\<close>: the inventory and the texts printed.\<close>

record nb_session =
  nb :: netbox
  printed :: "string list"

subsection \<open>\<open>get_config_vars\<close> and \<open>get_updated_info\<close>\<close>

definition get_config_vars :: "netbox \<Rightarrow> host_data \<Rightarrow> exn + host_data" where
  "get_config_vars netbox task =
     (case get_devices_by_name netbox (host_name task) of
        [] \<Rightarrow> Inl IndexError
      | d # ds \<Rightarrow>
          (let dev_id = device_ident d;
               task1 = task\<lparr>device_id := dev_id\<rparr>
           in (case get_devices_by_id netbox dev_id of
                 [] \<Rightarrow> Inl IndexError
               | nb_device # rest \<Rightarrow> Inr (task1\<lparr>config_vars := local_context_data nb_device\<rparr>))))"

definition get_updated_info :: "device_transport \<Rightarrow> netbox \<Rightarrow> host_data \<Rightarrow> exn + host_data" where
  "get_updated_info dev netbox task =
     (let nb_intf = get_interfaces netbox (device_id task);
          task1 = task\<lparr>nb_interfaces := nb_intf\<rparr>
      in (case napalm_interfaces dev of
            None \<Rightarrow> Inl NornirSubTaskError
          | Some intf \<Rightarrow>
              (let task2 = task1\<lparr>host_interfaces := intf\<rparr>
               in (case napalm_facts dev of
                     None \<Rightarrow> Inl NornirSubTaskError
                   | Some facts \<Rightarrow> Inr (task2\<lparr>device_info := facts\<rparr>)))))"

subsection \<open>\<open>is_interface_present\<close>\<close>

fun is_interface_present :: "nb_interface list \<Rightarrow> string \<Rightarrow> string \<Rightarrow> bool" where
  "is_interface_present [] dev_name name = False"
| "is_interface_present (i # rest) dev_name name =
     (if interface_name i = name \<and> display_name (device i) = dev_name then True
      else is_interface_present rest dev_name name)"

subsection \<open>Interface reconciliation\<close>

text \<open>Lines 404 to 407: the MAC address that is written to the inventory. A comparison of
  Python's \<open>None\<close> with a string is false.\<close>

definition normalize_mac :: "string option \<Rightarrow> string option" where
  "normalize_mac mac =
     (if mac = Some ''None'' \<or> mac = Some ''Unspecified'' \<or> mac = Some []
      then Some ''EE:EE:EE:EE:EE:EE'' else mac)"

definition creating_message :: "string \<Rightarrow> string \<Rightarrow> string" where
  "creating_message host name = ''*** '' @ host @ '': creating Netbox interface: '' @ name @ '' ***''"

definition updating_message :: "string \<Rightarrow> string \<Rightarrow> string" where
  "updating_message host name = ''*** '' @ host @ '': updating Netbox Interface: '' @ name @ '' ***''"

text \<open>Lines 401 to 427: the body of the first loop, for one interface of the device's
  facts. \<open>nb_intfs\<close> is the list of inventory interfaces read before the loop.\<close>

definition upsert_interface ::
  "string \<Rightarrow> nb_interface list \<Rightarrow> nat \<Rightarrow> string \<times> interface_facts \<Rightarrow> nb_session
     \<Rightarrow> exn + nb_session" where
  "upsert_interface host nb_intfs dev_id item s =
     (let name = fst item;
          descr = fact_description (snd item);
          mac = normalize_mac (fact_mac_address (snd item))
      in if \<not> is_interface_present nb_intfs host name then
           (case create_interface name dev_id 1000 descr mac (nb s) of
              Inl e \<Rightarrow> Inl e
            | Inr nb' \<Rightarrow>
                Inr (s\<lparr>nb := nb', printed := printed s @ [c_print (creating_message host name)]\<rparr>))
         else
           (case update_interface host name descr mac (nb s) of
              Inl e \<Rightarrow> Inl e
            | Inr nb' \<Rightarrow>
                Inr (s\<lparr>nb := nb', printed := printed s @ [c_print (updating_message host name)]\<rparr>)))"

fun upsert_interfaces ::
  "string \<Rightarrow> nb_interface list \<Rightarrow> nat \<Rightarrow> (string \<times> interface_facts) list \<Rightarrow> nb_session
     \<Rightarrow> exn + nb_session" where
  "upsert_interfaces host nb_intfs dev_id [] s = Inr s"
| "upsert_interfaces host nb_intfs dev_id (item # rest) s =
     (case upsert_interface host nb_intfs dev_id item s of
        Inl e \<Rightarrow> Inl e
      | Inr s' \<Rightarrow> upsert_interfaces host nb_intfs dev_id rest s')"

subsection \<open>IP reconciliation\<close>

text \<open>Lines 437 to 439: the canonical CIDR string of an interface of the intent.\<close>

definition cidr_string :: "interface_intent \<Rightarrow> exn + string" where
  "cidr_string intf =
     (case split_on CHR '' '' (ipaddr intf) of
        [ip_text, m] \<Rightarrow>
          (case ip_interface (ip_text @ ''/'' @ m) of
             Inl e \<Rightarrow> Inl e
           | Inr v \<Rightarrow> str_interface v)
      | _ \<Rightarrow> Inl ValueError)"

definition exists_message :: "string \<Rightarrow> string \<Rightarrow> string" where
  "exists_message host cidr = ''*** '' @ host @ '': '' @ cidr @ '' exists - verify manually in Netbox ***''"

text \<open>Lines 443 to 455: the inner loop over the inventory interfaces, with the answer
  \<open>ip_exists\<close> of the lookup made before the loop.\<close>

fun attach_ip ::
  "string \<Rightarrow> string \<Rightarrow> string \<Rightarrow> nb_ip_address list \<Rightarrow> nb_interface list \<Rightarrow> nb_session
     \<Rightarrow> nb_session" where
  "attach_ip host name cidr ip_exists [] s = s"
| "attach_ip host name cidr ip_exists (nb_intf # rest) s =
     attach_ip host name cidr ip_exists rest
       (if name = interface_name nb_intf then
          (if ip_exists = [] then s\<lparr>nb := create_ip_address cidr (interface_id nb_intf) (nb s)\<rparr>
           else s\<lparr>printed := printed s @ [c_print (exists_message host cidr)]\<rparr>)
        else s)"

text \<open>Lines 436 to 455: the body of the second loop, for one item of the interfaces of the
  intent.\<close>

definition reconcile_ip ::
  "string \<Rightarrow> nb_interface list \<Rightarrow> string \<times> interface_intent \<Rightarrow> nb_session \<Rightarrow> exn + nb_session" where
  "reconcile_ip host nb_intfs intf s =
     (case cidr_string (snd intf) of
        Inl e \<Rightarrow> Inl e
      | Inr cidr \<Rightarrow>
          (let ip_exists = get_ip_addresses (nb s) cidr
           in Inr (attach_ip host (fst intf) cidr ip_exists nb_intfs s)))"

fun reconcile_ips ::
  "string \<Rightarrow> nb_interface list \<Rightarrow> (string \<times> interface_intent) list \<Rightarrow> nb_session
     \<Rightarrow> exn + nb_session" where
  "reconcile_ips host nb_intfs [] s = Inr s"
| "reconcile_ips host nb_intfs (intf # rest) s =
     (case reconcile_ip host nb_intfs intf s of
        Inl e \<Rightarrow> Inl e
      | Inr s' \<Rightarrow> reconcile_ips host nb_intfs rest s')"

subsection \<open>The task\<close>

definition moved_message :: "string \<Rightarrow> string" where
  "moved_message host = ''*** '' @ host @ '': moved from Provisioning to Production ***''"

definition update_netbox ::
  "device_transport \<Rightarrow> host_data \<Rightarrow> nb_session \<Rightarrow> exn + host_data \<times> nb_session" where
  "update_netbox dev task s =
     (case get_updated_info dev (nb s) task of
        Inl e \<Rightarrow> Inl e
      | Inr task1 \<Rightarrow>
          (case upsert_interfaces (host_name task1) (nb_interfaces task1) (device_id task1)
                  (host_interfaces task1) s of
             Inl e \<Rightarrow> Inl e
           | Inr s1 \<Rightarrow>
               (case get_updated_info dev (nb s1) task1 of
                  Inl e \<Rightarrow> Inl e
                | Inr task2 \<Rightarrow>
                    (case reconcile_ips (host_name task2) (nb_interfaces task2)
                            (interfaces (config_vars task2)) s1 of
                       Inl e \<Rightarrow> Inl e
                     | Inr s2 \<Rightarrow>
                         (case update_device (host_name task2) 2 2 1 (nb s2) of
                            Inl e \<Rightarrow> Inl e
                          | Inr nb3 \<Rightarrow>
                              Inr (task2,
                                   s2\<lparr>nb := nb3,
                                      printed := printed s2 @
                                        [c_print (moved_message (host_name task2))]\<rparr>))))))"

subsection \<open>Invariants of the interface table\<close>

text \<open>The key of an inventory interface: the device it belongs to and its name.\<close>

definition interface_key :: "nb_interface \<Rightarrow> nat \<times> string" where
  "interface_key i = (nested_id (device i), interface_name i)"

text \<open>The invariant of the data model: at most one interface record for a device and a
  name.\<close>

definition keys_distinct :: "nb_interface list \<Rightarrow> bool" where
  "keys_distinct table = distinct (map interface_key table)"

text \<open>The interfaces that name the host as their device are those of the device
  \<open>dev_id\<close>.\<close>

definition refs_ok :: "string \<Rightarrow> nat \<Rightarrow> nb_interface list \<Rightarrow> bool" where
  "refs_ok host dev_id table =
     list_all (\<lambda>i. (display_name (device i) = host) = (nested_id (device i) = dev_id)) table"

text \<open>The lookup of the device \<open>dev_id\<close> answers with a device named as the host.\<close>

definition device_known :: "string \<Rightarrow> nat \<Rightarrow> netbox \<Rightarrow> bool" where
  "device_known host dev_id netbox =
     (case get_devices_by_id netbox dev_id of
        [] \<Rightarrow> False
      | d # ds \<Rightarrow> device_name d = host)"

text \<open>What reconciliation never changes in an interface record: its id, its name and its
  device.\<close>

definition stable_part :: "nb_interface \<Rightarrow> nat \<times> string \<times> nested_device" where
  "stable_part i = (interface_id i, interface_name i, device i)"

text \<open>The record carries the description and the normalized MAC address of the facts.\<close>

definition written :: "interface_facts \<Rightarrow> nb_interface \<Rightarrow> bool" where
  "written facts i =
     (description i = fact_description facts \<and>
      mac_address i = normalize_mac (fact_mac_address facts))"

text \<open>The request that interface reconciliation sends for one interface of the facts:
  an update when the inventory, as read before the loop, has a record with the key, a
  create otherwise.\<close>

definition upsert_request :: "string \<Rightarrow> nat \<Rightarrow> nb_interface list \<Rightarrow> string \<times> interface_facts \<Rightarrow> nb_request" where
  "upsert_request host dev_id table item =
     (if (dev_id, fst item) \<in> set (map interface_key table)
      then UpdateInterface host (fst item) (fact_description (snd item))
             (normalize_mac (fact_mac_address (snd item)))
      else CreateInterface (fst item) dev_id 1000 (fact_description (snd item))
             (normalize_mac (fact_mac_address (snd item))))"

lemma is_interface_present_iff:
  "is_interface_present table host name =
     (\<exists>i \<in> set table. interface_name i = name \<and> display_name (device i) = host)"
  by (induction table) auto

lemma update_first_None: "(update_first P f xs = None) = (\<forall>x \<in> set xs. \<not> P x)"
  by (induction xs) (auto split: option.splits)

lemma update_first_map:
  "update_first P f xs = Some ys \<Longrightarrow> (\<And>x. g (f x) = g x) \<Longrightarrow> map g ys = map g xs"
  by (induction xs arbitrary: ys) (auto split: if_splits option.splits)

lemma update_first_keyed:
  assumes "distinct (map k xs)" and "\<And>x. k (f x) = k x" and "c \<in> set (map k xs)"
  shows "update_first (\<lambda>x. k x = c) f xs = Some (map (\<lambda>x. if k x = c then f x else x) xs)"
  using assms(1,3)
proof (induction xs)
  case Nil
  then show ?case by simp
next
  case (Cons x xs)
  show ?case
  proof (cases "k x = c")
    case True
    with Cons.prems have "\<forall>y \<in> set xs. k y \<noteq> c" by (auto simp: image_iff)
    then have "map (\<lambda>x. if k x = c then f x else x) xs = xs"
      by (simp add: map_idI)
    with True show ?thesis by simp
  next
    case False
    with Cons show ?thesis by auto
  qed
qed

lemma update_first_cong:
  "(\<And>x. x \<in> set xs \<Longrightarrow> P x = Q x) \<Longrightarrow> update_first P f xs = update_first Q f xs"
  by (induction xs) auto

lemma host_key:
  assumes "refs_ok host dev_id table" and "i \<in> set table"
  shows "(interface_name i = name \<and> display_name (device i) = host) = (interface_key i = (dev_id, name))"
  using assms by (auto simp: refs_ok_def list_all_iff interface_key_def)

lemma present_iff_key:
  assumes "refs_ok host dev_id table"
  shows "is_interface_present (filter (\<lambda>i. nested_id (device i) = dev_id) table) host name =
           ((dev_id, name) \<in> set (map interface_key table))"
  using assms
  by (auto simp: is_interface_present_iff refs_ok_def list_all_iff interface_key_def image_iff)

lemma update_interface_keyed:
  assumes "keys_distinct (dcim_interfaces netbox)" and "refs_ok host dev_id (dcim_interfaces netbox)"
      and "(dev_id, name) \<in> set (map interface_key (dcim_interfaces netbox))"
  shows "update_interface host name descr mac netbox =
           Inr (netbox\<lparr>dcim_interfaces :=
                     map (\<lambda>i. if interface_key i = (dev_id, name)
                              then i\<lparr>description := descr, mac_address := mac\<rparr> else i)
                       (dcim_interfaces netbox),
                   requests := requests netbox @ [UpdateInterface host name descr mac]\<rparr>)"
proof -
  let ?f = "\<lambda>i. i\<lparr>description := descr, mac_address := mac\<rparr>"
  have "update_first (\<lambda>i. interface_name i = name \<and> display_name (device i) = host) ?f
          (dcim_interfaces netbox) =
        update_first (\<lambda>i. interface_key i = (dev_id, name)) ?f (dcim_interfaces netbox)"
    by (rule update_first_cong) (rule host_key [OF assms(2)])
  also have "\<dots> = Some (map (\<lambda>i. if interface_key i = (dev_id, name) then ?f i else i)
                          (dcim_interfaces netbox))"
  proof (rule update_first_keyed)
    show "distinct (map interface_key (dcim_interfaces netbox))"
      using assms(1) by (simp add: keys_distinct_def)
    show "interface_key (?f x) = interface_key x" for x by (simp add: interface_key_def)
    show "(dev_id, name) \<in> set (map interface_key (dcim_interfaces netbox))" by (rule assms(3))
  qed
  finally show ?thesis by (simp add: update_interface_def)
qed


text \<open>The invariant of the first loop, after the items \<open>seen\<close>: devices and IP
  addresses are untouched; the keys stay distinct; the keys are those of the start and
  those of the items seen; the records of the items seen carry their facts; the records
  of the start are still there, in place, with their ids, names and devices; and the
  requests sent are one for each item seen.\<close>

definition upsert_inv ::
  "string \<Rightarrow> nat \<Rightarrow> netbox \<Rightarrow> (string \<times> interface_facts) list \<Rightarrow> netbox \<Rightarrow> bool" where
  "upsert_inv host dev_id nb0 seen nb1 =
     (devices nb1 = devices nb0 \<and>
      ip_addresses nb1 = ip_addresses nb0 \<and>
      keys_distinct (dcim_interfaces nb1) \<and>
      refs_ok host dev_id (dcim_interfaces nb1) \<and>
      set (map interface_key (dcim_interfaces nb1)) =
        set (map interface_key (dcim_interfaces nb0)) \<union> (\<lambda>item. (dev_id, fst item)) ` set seen \<and>
      (\<forall>item \<in> set seen. \<forall>i \<in> set (dcim_interfaces nb1).
          interface_key i = (dev_id, fst item) \<longrightarrow> written (snd item) i) \<and>
      (\<exists>extra. map stable_part (dcim_interfaces nb1) =
                  map stable_part (dcim_interfaces nb0) @ extra) \<and>
      requests nb1 = requests nb0 @ map (upsert_request host dev_id (dcim_interfaces nb0)) seen)"

lemma upsert_inv_start:
  "keys_distinct (dcim_interfaces nb0) \<Longrightarrow> refs_ok host dev_id (dcim_interfaces nb0) \<Longrightarrow>
   upsert_inv host dev_id nb0 [] nb0"
  by (simp add: upsert_inv_def)

lemma upsert_interface_update:
  assumes inv: "upsert_inv host dev_id nb0 seen (nb s)"
      and refs0: "refs_ok host dev_id (dcim_interfaces nb0)"
      and old: "(dev_id, fst item) \<in> set (map interface_key (dcim_interfaces nb0))"
      and fresh: "fst item \<notin> fst ` set seen"
  shows "\<exists>s'. upsert_interface host (get_interfaces nb0 dev_id) dev_id item s = Inr s' \<and>
           upsert_inv host dev_id nb0 (seen @ [item]) (nb s') \<and>
           printed s' = printed s @ [c_print (updating_message host (fst item))]"
proof -
  let ?T = "dcim_interfaces (nb s)"
  let ?d = "fact_description (snd item)"
  let ?m = "normalize_mac (fact_mac_address (snd item))"
  let ?upd = "\<lambda>i. if interface_key i = (dev_id, fst item)
                    then i\<lparr>description := ?d, mac_address := ?m\<rparr> else i"
  let ?nb' = "(nb s)\<lparr>dcim_interfaces := map ?upd ?T,
                     requests := requests (nb s) @ [UpdateInterface host (fst item) ?d ?m]\<rparr>"
  let ?s' = "s\<lparr>nb := ?nb', printed := printed s @ [c_print (updating_message host (fst item))]\<rparr>"
  from inv have kd: "keys_distinct ?T" and ro: "refs_ok host dev_id ?T"
    and keys: "set (map interface_key ?T) =
        set (map interface_key (dcim_interfaces nb0)) \<union> (\<lambda>item. (dev_id, fst item)) ` set seen"
    by (simp_all add: upsert_inv_def)
  from old keys have here: "(dev_id, fst item) \<in> set (map interface_key ?T)" by blast
  have present: "is_interface_present (get_interfaces nb0 dev_id) host (fst item)"
    using present_iff_key [OF refs0] old by (simp add: get_interfaces_def)
  have step: "upsert_interface host (get_interfaces nb0 dev_id) dev_id item s = Inr ?s'"
    using present update_interface_keyed [OF kd ro here, of ?d ?m]
    by (simp add: upsert_interface_def Let_def)
  have k: "interface_key (?upd i) = interface_key i" for i by (simp add: interface_key_def)
  have mk: "map interface_key (dcim_interfaces ?nb') = map interface_key ?T"
    using k by (simp add: comp_def)
  have st: "map stable_part (dcim_interfaces ?nb') = map stable_part ?T"
    by (simp add: comp_def stable_part_def)
  have dv: "device (?upd i) = device i" for i by simp
  have "upsert_inv host dev_id nb0 (seen @ [item]) ?nb'"
    unfolding upsert_inv_def
  proof (intro conjI)
    show "devices ?nb' = devices nb0" using inv by (simp add: upsert_inv_def)
    show "ip_addresses ?nb' = ip_addresses nb0" using inv by (simp add: upsert_inv_def)
    show "keys_distinct (dcim_interfaces ?nb')"
      unfolding keys_distinct_def mk using kd by (simp only: keys_distinct_def)
    show "refs_ok host dev_id (dcim_interfaces ?nb')"
      unfolding refs_ok_def list_all_iff
    proof
      fix i assume "i \<in> set (dcim_interfaces ?nb')"
      then obtain j where j: "j \<in> set ?T" and ij: "i = ?upd j" by auto
      from ij have "device i = device j" by simp
      with ro j show "(display_name (device i) = host) = (nested_id (device i) = dev_id)"
        by (simp add: refs_ok_def list_all_iff)
    qed
    show "set (map interface_key (dcim_interfaces ?nb')) =
        set (map interface_key (dcim_interfaces nb0)) \<union>
        (\<lambda>item. (dev_id, fst item)) ` set (seen @ [item])"
      unfolding mk using keys old by (simp add: insert_absorb)
    show "\<forall>it \<in> set (seen @ [item]). \<forall>i \<in> set (dcim_interfaces ?nb').
            interface_key i = (dev_id, fst it) \<longrightarrow> written (snd it) i"
    proof (intro ballI impI)
      fix it i
      assume it: "it \<in> set (seen @ [item])" and i: "i \<in> set (dcim_interfaces ?nb')"
        and ki: "interface_key i = (dev_id, fst it)"
      from i obtain j where j: "j \<in> set ?T" and ij: "i = ?upd j" by auto
      show "written (snd it) i"
      proof (cases "it = item")
        case True
        with ki ij k [of j] show ?thesis by (simp add: written_def)
      next
        case False
        with it have itd: "it \<in> set seen" by simp
        with fresh have "fst it \<noteq> fst item" by (metis imageI)
        with ki ij k [of j] have "i = j" by auto
        with inv itd j ki show ?thesis by (auto simp: upsert_inv_def)
      qed
    qed
    show "\<exists>extra. map stable_part (dcim_interfaces ?nb') =
                  map stable_part (dcim_interfaces nb0) @ extra"
      unfolding st using inv by (simp only: upsert_inv_def)
    show "requests ?nb' =
        requests nb0 @ map (upsert_request host dev_id (dcim_interfaces nb0)) (seen @ [item])"
      using inv old by (simp add: upsert_inv_def upsert_request_def)
  qed
  with step show ?thesis by auto
qed


lemma upsert_interface_create:
  assumes inv: "upsert_inv host dev_id nb0 seen (nb s)"
      and refs0: "refs_ok host dev_id (dcim_interfaces nb0)"
      and known: "device_known host dev_id nb0"
      and new: "(dev_id, fst item) \<notin> set (map interface_key (dcim_interfaces nb0))"
      and fresh: "fst item \<notin> fst ` set seen"
  shows "\<exists>s'. upsert_interface host (get_interfaces nb0 dev_id) dev_id item s = Inr s' \<and>
           upsert_inv host dev_id nb0 (seen @ [item]) (nb s') \<and>
           printed s' = printed s @ [c_print (creating_message host (fst item))]"
proof -
  let ?T = "dcim_interfaces (nb s)"
  let ?d = "fact_description (snd item)"
  let ?m = "normalize_mac (fact_mac_address (snd item))"
  let ?r = "\<lparr>interface_id = fresh_id (map interface_id ?T), interface_name = fst item,
             device = \<lparr>nested_id = dev_id, display_name = host\<rparr>, interface_type = 1000,
             description = ?d, mac_address = ?m\<rparr>"
  let ?nb' = "(nb s)\<lparr>dcim_interfaces := ?T @ [?r],
                     requests := requests (nb s) @ [CreateInterface (fst item) dev_id 1000 ?d ?m]\<rparr>"
  let ?s' = "s\<lparr>nb := ?nb', printed := printed s @ [c_print (creating_message host (fst item))]\<rparr>"
  from inv have dev: "devices (nb s) = devices nb0"
    and kd: "keys_distinct ?T" and ro: "refs_ok host dev_id ?T"
    and keys: "set (map interface_key ?T) =
        set (map interface_key (dcim_interfaces nb0)) \<union> (\<lambda>item. (dev_id, fst item)) ` set seen"
    by (simp_all add: upsert_inv_def)
  from known dev obtain d ds where d: "get_devices_by_id (nb s) dev_id = d # ds" "device_name d = host"
    by (auto simp: device_known_def get_devices_by_id_def split: list.splits)
  have absent: "\<not> is_interface_present (get_interfaces nb0 dev_id) host (fst item)"
    using present_iff_key [OF refs0] new by (simp add: get_interfaces_def)
  have step: "upsert_interface host (get_interfaces nb0 dev_id) dev_id item s = Inr ?s'"
    using absent d by (simp add: upsert_interface_def create_interface_def Let_def)
  have kr: "interface_key ?r = (dev_id, fst item)" by (simp add: interface_key_def)
  have notin: "(dev_id, fst item) \<notin> set (map interface_key ?T)"
  proof
    assume "(dev_id, fst item) \<in> set (map interface_key ?T)"
    with keys new have "(dev_id, fst item) \<in> (\<lambda>item. (dev_id, fst item)) ` set seen" by blast
    then have "fst item \<in> fst ` set seen" by auto
    with fresh show False by contradiction
  qed
  have "upsert_inv host dev_id nb0 (seen @ [item]) ?nb'"
    unfolding upsert_inv_def
  proof (intro conjI)
    show "devices ?nb' = devices nb0" using dev by simp
    show "ip_addresses ?nb' = ip_addresses nb0" using inv by (simp add: upsert_inv_def)
    show "keys_distinct (dcim_interfaces ?nb')"
      using kd notin kr by (simp add: keys_distinct_def)
    show "refs_ok host dev_id (dcim_interfaces ?nb')"
      using ro by (simp add: refs_ok_def)
    show "set (map interface_key (dcim_interfaces ?nb')) =
        set (map interface_key (dcim_interfaces nb0)) \<union>
        (\<lambda>item. (dev_id, fst item)) ` set (seen @ [item])"
      using keys kr by auto
    show "\<forall>it \<in> set (seen @ [item]). \<forall>i \<in> set (dcim_interfaces ?nb').
            interface_key i = (dev_id, fst it) \<longrightarrow> written (snd it) i"
    proof (intro ballI impI)
      fix it i
      assume it: "it \<in> set (seen @ [item])" and i: "i \<in> set (dcim_interfaces ?nb')"
        and ki: "interface_key i = (dev_id, fst it)"
      show "written (snd it) i"
      proof (cases "i = ?r")
        case True
        with ki kr have same: "fst it = fst item" by simp
        have "it = item"
        proof (rule ccontr)
          assume "it \<noteq> item"
          with it have "it \<in> set seen" by simp
          then have "fst it \<in> fst ` set seen" by (rule imageI)
          with same fresh show False by simp
        qed
        with True show ?thesis by (simp add: written_def)
      next
        case False
        with i have iT: "i \<in> set ?T" by simp
        with notin have "interface_key i \<noteq> (dev_id, fst item)" by (metis imageI set_map)
        with ki have "it \<noteq> item" by auto
        with it have "it \<in> set seen" by simp
        with inv iT ki show ?thesis by (auto simp: upsert_inv_def)
      qed
    qed
    show "\<exists>extra. map stable_part (dcim_interfaces ?nb') =
                  map stable_part (dcim_interfaces nb0) @ extra"
      using inv by (auto simp: upsert_inv_def)
    show "requests ?nb' =
        requests nb0 @ map (upsert_request host dev_id (dcim_interfaces nb0)) (seen @ [item])"
      using inv new by (simp add: upsert_inv_def upsert_request_def)
  qed
  with step show ?thesis by auto
qed

lemma upsert_interface_inv:
  assumes "upsert_inv host dev_id nb0 seen (nb s)"
      and "refs_ok host dev_id (dcim_interfaces nb0)"
      and "device_known host dev_id nb0"
      and "fst item \<notin> fst ` set seen"
  shows "\<exists>s'. upsert_interface host (get_interfaces nb0 dev_id) dev_id item s = Inr s' \<and>
           upsert_inv host dev_id nb0 (seen @ [item]) (nb s') \<and>
           printed s' = printed s @
             [c_print (if (dev_id, fst item) \<in> set (map interface_key (dcim_interfaces nb0))
                       then updating_message host (fst item)
                       else creating_message host (fst item))]"
proof (cases "(dev_id, fst item) \<in> set (map interface_key (dcim_interfaces nb0))")
  case True
  with upsert_interface_update [OF assms(1,2) True assms(4)] show ?thesis by simp
next
  case False
  with upsert_interface_create [OF assms(1,2,3) False assms(4)] show ?thesis by simp
qed

lemma upsert_interfaces_inv:
  assumes "upsert_inv host dev_id nb0 seen (nb s)"
      and "refs_ok host dev_id (dcim_interfaces nb0)"
      and "device_known host dev_id nb0"
      and "distinct (map fst (seen @ items))"
  shows "\<exists>s'. upsert_interfaces host (get_interfaces nb0 dev_id) dev_id items s = Inr s' \<and>
           upsert_inv host dev_id nb0 (seen @ items) (nb s') \<and>
           printed s' = printed s @
             map (\<lambda>item. c_print (if (dev_id, fst item) \<in> set (map interface_key (dcim_interfaces nb0))
                                   then updating_message host (fst item)
                                   else creating_message host (fst item))) items"
  using assms(1,4)
proof (induction items arbitrary: seen s)
  case Nil
  then show ?case by simp
next
  case (Cons item rest)
  from Cons.prems(2) have fresh: "fst item \<notin> fst ` set seen" by auto
  from upsert_interface_inv [OF Cons.prems(1) assms(2,3) fresh]
  obtain s1 where one: "upsert_interface host (get_interfaces nb0 dev_id) dev_id item s = Inr s1"
    and inv1: "upsert_inv host dev_id nb0 (seen @ [item]) (nb s1)"
    and out1: "printed s1 = printed s @
             [c_print (if (dev_id, fst item) \<in> set (map interface_key (dcim_interfaces nb0))
                       then updating_message host (fst item)
                       else creating_message host (fst item))]"
    by blast
  from Cons.prems(2) have "distinct (map fst ((seen @ [item]) @ rest))" by simp
  from Cons.IH [OF inv1 this] one out1 show ?case by auto
qed

subsection \<open>A well-formed inventory\<close>

text \<open>The invariants of the data model: device ids and device names are unique, every
  interface names an existing device by its id and its name, there is at most one
  interface record for a device and a name, and at most one IP record for a literal
  address string.\<close>

definition inventory_ok :: "netbox \<Rightarrow> bool" where
  "inventory_ok netbox =
     (distinct (map device_ident (devices netbox)) \<and>
      distinct (map device_name (devices netbox)) \<and>
      list_all (\<lambda>i. \<exists>d \<in> set (devices netbox).
                  device_ident d = nested_id (device i) \<and> device_name d = display_name (device i))
        (dcim_interfaces netbox) \<and>
      keys_distinct (dcim_interfaces netbox) \<and>
      distinct (map address (ip_addresses netbox)))"

subsection \<open>A sample inventory and device\<close>

text \<open>The inventory before the first run: the router \<open>csr1\<close> with the config context of
  the tests and one interface record.\<close>

definition sample_netbox :: netbox where
  "sample_netbox =
     \<lparr>devices =
        [\<lparr>device_ident = 7, device_name = ''csr1'', device_type = 1, device_role = 1,
          device_site = 1, local_context_data = cfg\<rparr>],
      dcim_interfaces =
        [\<lparr>interface_id = 3, interface_name = ''GigabitEthernet1'',
          device = \<lparr>nested_id = 7, display_name = ''csr1''\<rparr>, interface_type = 1000,
          description = [], mac_address = None\<rparr>],
      ip_addresses = [],
      requests = []\<rparr>"

text \<open>The facts of the device: a MAC address, the text \<open>Unspecified\<close>, and Python's
  \<open>None\<close>.\<close>

definition sample_device :: device_transport where
  "sample_device =
     \<lparr>napalm_interfaces =
        Some [(''GigabitEthernet1'',
               \<lparr>fact_description = ''Uplink to CSR-2'', fact_mac_address = Some ''52:54:00:0A:0B:01''\<rparr>),
              (''GigabitEthernet2'',
               \<lparr>fact_description = ''Uplink to CSR-3'', fact_mac_address = Some ''Unspecified''\<rparr>),
              (''Loopback0'',
               \<lparr>fact_description = ''Router ID'', fact_mac_address = None\<rparr>)],
      napalm_facts = Some [(''vendor'', ''Cisco'')]\<rparr>"

text \<open>The scratch data of the host before any task has run.\<close>

definition sample_host :: host_data where
  "sample_host =
     \<lparr>host_name = ''csr1'', device_id = 0, config_vars = \<lparr>bgp = \<lparr>asn = 0, neighbors = [], networks = [], rid = []\<rparr>, interfaces = []\<rparr>,
      nb_interfaces = [], host_interfaces = [], device_info = []\<rparr>"

subsection \<open>The identity of the device\<close>

lemma get_config_vars_known:
  assumes ok: "inventory_ok netbox" and cv: "get_config_vars netbox task0 = Inr task"
  shows "host_name task = host_name task0"
    and "device_known (host_name task) (device_id task) netbox"
    and "refs_ok (host_name task) (device_id task) (dcim_interfaces netbox)"
    and "\<exists>d \<in> set (devices netbox). device_name d = host_name task"
    and "config_vars task = local_context_data (hd (get_devices_by_id netbox (device_id task)))"
proof -
  from cv obtain d ds e es where
    d: "get_devices_by_name netbox (host_name task0) = d # ds" and
    e: "get_devices_by_id netbox (device_ident d) = e # es" and
    task: "task = task0\<lparr>device_id := device_ident d, config_vars := local_context_data e\<rparr>"
    by (auto simp: get_config_vars_def Let_def split: list.splits)
  from d have "d \<in> set (get_devices_by_name netbox (host_name task0))" by simp
  then have dd: "d \<in> set (devices netbox)" "device_name d = host_name task0"
    by (simp_all add: get_devices_by_name_def)
  from e have "e \<in> set (get_devices_by_id netbox (device_ident d))" by simp
  then have ee: "e \<in> set (devices netbox)" "device_ident e = device_ident d"
    by (simp_all add: get_devices_by_id_def)
  from ok have inj_id: "inj_on device_ident (set (devices netbox))"
    and inj_name: "inj_on device_name (set (devices netbox))"
    by (simp_all add: inventory_ok_def distinct_map)
  from inj_id dd(1) ee have "e = d" by (auto dest: inj_onD)
  show "host_name task = host_name task0" using task by simp
  show "device_known (host_name task) (device_id task) netbox"
    using task e \<open>e = d\<close> dd(2) by (simp add: device_known_def)
  show "\<exists>d \<in> set (devices netbox). device_name d = host_name task"
    using task dd by auto
  show "config_vars task = local_context_data (hd (get_devices_by_id netbox (device_id task)))"
    using task e by simp
  show "refs_ok (host_name task) (device_id task) (dcim_interfaces netbox)"
    unfolding refs_ok_def list_all_iff
  proof
    fix i assume "i \<in> set (dcim_interfaces netbox)"
    with ok obtain d' where d': "d' \<in> set (devices netbox)"
      "device_ident d' = nested_id (device i)" "device_name d' = display_name (device i)"
      by (auto simp: inventory_ok_def list_all_iff)
    have "(device_name d' = device_name d) = (device_ident d' = device_ident d)"
      using inj_id inj_name d'(1) dd(1) by (auto dest: inj_onD)
    with d'(2,3) dd(2) task
    show "(display_name (device i) = host_name task) = (nested_id (device i) = device_id task)"
      by simp
  qed
qed

subsection \<open>MAC normalization\<close>

lemma upsert_interface_request:
  assumes "upsert_interface host nb_intfs dev_id item s = Inr s'"
  shows "requests (nb s') = requests (nb s) @
           [if is_interface_present nb_intfs host (fst item)
            then UpdateInterface host (fst item) (fact_description (snd item))
                   (normalize_mac (fact_mac_address (snd item)))
            else CreateInterface (fst item) dev_id 1000 (fact_description (snd item))
                   (normalize_mac (fact_mac_address (snd item)))]"
  using assms
  by (auto simp: upsert_interface_def Let_def create_interface_def update_interface_def
           split: if_splits sum.splits list.splits option.splits)

text \<open>
  Claim C7. The MAC address that reconciliation writes for the strings \<open>None\<close>,
  \<open>Unspecified\<close> and the empty string is \<open>EE:EE:EE:EE:EE:EE\<close>; any other string is
  written as it is.
\<close>

theorem normalize_mac_strings:
  "normalize_mac (Some ''None'') = Some ''EE:EE:EE:EE:EE:EE'' \<and>
   normalize_mac (Some ''Unspecified'') = Some ''EE:EE:EE:EE:EE:EE'' \<and>
   normalize_mac (Some []) = Some ''EE:EE:EE:EE:EE:EE'' \<and>
   normalize_mac (Some m) =
     Some (if m = ''None'' \<or> m = ''Unspecified'' \<or> m = [] then ''EE:EE:EE:EE:EE:EE'' else m)"
  by (simp add: normalize_mac_def)

text \<open>
  Claim C10. Python's \<open>None\<close> is none of the three strings: it is not replaced by the
  placeholder, and the create or update request that reconciliation sends for the
  interface carries \<open>None\<close> as its MAC address.
\<close>

theorem mac_none_passes_through:
  "normalize_mac None = None \<and>
   (upsert_interface host nb_intfs dev_id
        (name, \<lparr>fact_description = descr, fact_mac_address = None\<rparr>) s = Inr s' \<longrightarrow>
      requests (nb s') = requests (nb s) @
        [if is_interface_present nb_intfs host name
         then UpdateInterface host name descr None
         else CreateInterface name dev_id 1000 descr None])"
proof -
  have none: "normalize_mac None = None" by (simp add: normalize_mac_def)
  show ?thesis
  proof (intro conjI impI)
    show "normalize_mac None = None" by (rule none)
    assume "upsert_interface host nb_intfs dev_id
        (name, \<lparr>fact_description = descr, fact_mac_address = None\<rparr>) s = Inr s'"
    from upsert_interface_request [OF this] none
    show "requests (nb s') = requests (nb s) @
        [if is_interface_present nb_intfs host name
         then UpdateInterface host name descr None
         else CreateInterface name dev_id 1000 descr None]"
      by simp
  qed
qed

lemma sample_upsert_loopback:
  "upsert_interface ''csr1'' (get_interfaces sample_netbox 7) 7
     (''Loopback0'', \<lparr>fact_description = ''Router ID'', fact_mac_address = None\<rparr>)
     \<lparr>nb = sample_netbox, printed = []\<rparr> =
   Inr \<lparr>nb = sample_netbox
           \<lparr>dcim_interfaces := dcim_interfaces sample_netbox @
              [\<lparr>interface_id = 4, interface_name = ''Loopback0'',
                device = \<lparr>nested_id = 7, display_name = ''csr1''\<rparr>, interface_type = 1000,
                description = ''Router ID'', mac_address = None\<rparr>],
            requests := [CreateInterface ''Loopback0'' 7 1000 ''Router ID'' None]\<rparr>,
         printed = [c_print (creating_message ''csr1'' ''Loopback0'')]\<rparr>"
  by (simp add: upsert_interface_def get_interfaces_def sample_netbox_def create_interface_def
      get_devices_by_id_def normalize_mac_def fresh_id_def Let_def)

theorem mac_none_passes_through_witness:
  "requests (sample_netbox
           \<lparr>dcim_interfaces := dcim_interfaces sample_netbox @
              [\<lparr>interface_id = 4, interface_name = ''Loopback0'',
                device = \<lparr>nested_id = 7, display_name = ''csr1''\<rparr>, interface_type = 1000,
                description = ''Router ID'', mac_address = None\<rparr>],
            requests := [CreateInterface ''Loopback0'' 7 1000 ''Router ID'' None]\<rparr>) =
   requests sample_netbox @
     [if is_interface_present (get_interfaces sample_netbox 7) ''csr1'' ''Loopback0''
      then UpdateInterface ''csr1'' ''Loopback0'' ''Router ID'' None
      else CreateInterface ''Loopback0'' 7 1000 ''Router ID'' None]"
  using mac_none_passes_through [THEN conjunct2, THEN mp, OF sample_upsert_loopback]
  by simp


subsection \<open>The upsert by device and name\<close>

text \<open>
  Claim C6. On a well-formed inventory, for the device of the host and the interfaces of
  its facts (a dictionary: the names are distinct), the first loop returns, and it sends
  one request for each interface, in order: an update of description and MAC address when
  the inventory has a record with that device name and interface name, a create otherwise.
  No record is deleted: the records of the start are still in the table, in place, with
  their ids, names and devices. At the end every interface of the facts has a record under
  the key of device and name that carries its description and normalized MAC address, and
  no key occurs twice.
\<close>

theorem interface_upsert_by_key:
  assumes ok: "inventory_ok netbox"
      and cv: "get_config_vars netbox task0 = Inr task"
      and keys: "distinct (map fst facts)"
  shows "\<exists>s'. upsert_interfaces (host_name task) (get_interfaces netbox (device_id task))
                (device_id task) facts \<lparr>nb = netbox, printed = out\<rparr> = Inr s' \<and>
           requests (nb s') = requests netbox @
             map (\<lambda>item.
                    if \<exists>i \<in> set (dcim_interfaces netbox).
                         interface_name i = fst item \<and> display_name (device i) = host_name task
                    then UpdateInterface (host_name task) (fst item) (fact_description (snd item))
                           (normalize_mac (fact_mac_address (snd item)))
                    else CreateInterface (fst item) (device_id task) 1000
                           (fact_description (snd item))
                           (normalize_mac (fact_mac_address (snd item)))) facts \<and>
           (\<exists>extra. map stable_part (dcim_interfaces (nb s')) =
                      map stable_part (dcim_interfaces netbox) @ extra) \<and>
           (\<forall>item \<in> set facts. \<exists>i \<in> set (dcim_interfaces (nb s')).
               interface_key i = (device_id task, fst item) \<and> written (snd item) i) \<and>
           keys_distinct (dcim_interfaces (nb s'))"
proof -
  let ?host = "host_name task" and ?dev = "device_id task"
  let ?T0 = "dcim_interfaces netbox"
  note known = get_config_vars_known(2) [OF ok cv]
  note refs = get_config_vars_known(3) [OF ok cv]
  from ok have kd: "keys_distinct ?T0" by (simp add: inventory_ok_def)
  have start: "upsert_inv ?host ?dev netbox [] (nb \<lparr>nb = netbox, printed = out\<rparr>)"
    using upsert_inv_start [OF kd refs] by simp
  from keys have dist: "distinct (map fst ([] @ facts))" by simp
  from upsert_interfaces_inv [OF start refs known dist]
  obtain s' where run: "upsert_interfaces ?host (get_interfaces netbox ?dev) ?dev facts
                          \<lparr>nb = netbox, printed = out\<rparr> = Inr s'"
    and inv: "upsert_inv ?host ?dev netbox facts (nb s')"
    by auto
  have req: "upsert_request ?host ?dev ?T0 item =
      (if \<exists>i \<in> set ?T0. interface_name i = fst item \<and> display_name (device i) = ?host
       then UpdateInterface ?host (fst item) (fact_description (snd item))
              (normalize_mac (fact_mac_address (snd item)))
       else CreateInterface (fst item) ?dev 1000 (fact_description (snd item))
              (normalize_mac (fact_mac_address (snd item))))" for item
  proof -
    have "((?dev, fst item) \<in> set (map interface_key ?T0)) =
          (\<exists>i \<in> set ?T0. interface_name i = fst item \<and> display_name (device i) = ?host)"
    proof
      assume "(?dev, fst item) \<in> set (map interface_key ?T0)"
      then obtain i where i: "i \<in> set ?T0" "interface_key i = (?dev, fst item)" by auto
      with host_key [OF refs i(1), of "fst item"] show
        "\<exists>i \<in> set ?T0. interface_name i = fst item \<and> display_name (device i) = ?host"
        by blast
    next
      assume "\<exists>i \<in> set ?T0. interface_name i = fst item \<and> display_name (device i) = ?host"
      then obtain i where i: "i \<in> set ?T0"
        "interface_name i = fst item \<and> display_name (device i) = ?host" by blast
      with host_key [OF refs i(1), of "fst item"] have "interface_key i = (?dev, fst item)" by simp
      with i(1) show "(?dev, fst item) \<in> set (map interface_key ?T0)" by force
    qed
    then show ?thesis by (simp only: upsert_request_def)
  qed
  have written_all: "\<forall>item \<in> set facts. \<exists>i \<in> set (dcim_interfaces (nb s')).
               interface_key i = (?dev, fst item) \<and> written (snd item) i"
  proof
    fix item assume item: "item \<in> set facts"
    with inv have "(?dev, fst item) \<in> set (map interface_key (dcim_interfaces (nb s')))"
      by (simp add: upsert_inv_def)
    then obtain i where i: "i \<in> set (dcim_interfaces (nb s'))" "interface_key i = (?dev, fst item)"
      by auto
    with inv item have "written (snd item) i" by (simp add: upsert_inv_def)
    with i show "\<exists>i \<in> set (dcim_interfaces (nb s')).
               interface_key i = (?dev, fst item) \<and> written (snd item) i" by blast
  qed
  from inv have "requests (nb s') = requests netbox @ map (upsert_request ?host ?dev ?T0) facts"
    and "\<exists>extra. map stable_part (dcim_interfaces (nb s')) = map stable_part ?T0 @ extra"
    and "keys_distinct (dcim_interfaces (nb s'))"
    by (simp_all add: upsert_inv_def)
  with run written_all show ?thesis by (simp add: req)
qed

lemma sample_inventory_ok: "inventory_ok sample_netbox"
  by (simp add: inventory_ok_def sample_netbox_def keys_distinct_def interface_key_def)

text \<open>The scratch data of the host after \<open>get_config_vars\<close>.\<close>

definition sample_task :: host_data where
  "sample_task = sample_host\<lparr>device_id := 7, config_vars := cfg\<rparr>"

lemma sample_get_config_vars: "get_config_vars sample_netbox sample_host = Inr sample_task"
  by (simp add: get_config_vars_def sample_netbox_def sample_host_def sample_task_def
      get_devices_by_name_def get_devices_by_id_def)

theorem interface_upsert_by_key_witness:
  "\<exists>s'. upsert_interfaces ''csr1'' (get_interfaces sample_netbox 7) 7
           (the (napalm_interfaces sample_device)) \<lparr>nb = sample_netbox, printed = []\<rparr> = Inr s' \<and>
         requests (nb s') =
           [UpdateInterface ''csr1'' ''GigabitEthernet1'' ''Uplink to CSR-2'' (Some ''52:54:00:0A:0B:01''),
            CreateInterface ''GigabitEthernet2'' 7 1000 ''Uplink to CSR-3'' (Some ''EE:EE:EE:EE:EE:EE''),
            CreateInterface ''Loopback0'' 7 1000 ''Router ID'' None]"
proof -
  have d: "distinct (map fst (the (napalm_interfaces sample_device)))"
    by (simp add: sample_device_def)
  from interface_upsert_by_key [OF sample_inventory_ok sample_get_config_vars d, of "[]"]
  obtain s' where
    run: "upsert_interfaces (host_name sample_task) (get_interfaces sample_netbox (device_id sample_task))
            (device_id sample_task) (the (napalm_interfaces sample_device))
            \<lparr>nb = sample_netbox, printed = []\<rparr> = Inr s'"
    and req: "requests (nb s') = requests sample_netbox @
             map (\<lambda>item.
                    if \<exists>i \<in> set (dcim_interfaces sample_netbox).
                         interface_name i = fst item \<and> display_name (device i) = host_name sample_task
                    then UpdateInterface (host_name sample_task) (fst item) (fact_description (snd item))
                           (normalize_mac (fact_mac_address (snd item)))
                    else CreateInterface (fst item) (device_id sample_task) 1000
                           (fact_description (snd item))
                           (normalize_mac (fact_mac_address (snd item))))
               (the (napalm_interfaces sample_device))"
    by blast
  have "requests (nb s') =
           [UpdateInterface ''csr1'' ''GigabitEthernet1'' ''Uplink to CSR-2'' (Some ''52:54:00:0A:0B:01''),
            CreateInterface ''GigabitEthernet2'' 7 1000 ''Uplink to CSR-3'' (Some ''EE:EE:EE:EE:EE:EE''),
            CreateInterface ''Loopback0'' 7 1000 ''Router ID'' None]"
    unfolding req
    by (simp add: sample_netbox_def sample_device_def sample_task_def sample_host_def
        normalize_mac_def)
  moreover from run have "upsert_interfaces ''csr1'' (get_interfaces sample_netbox 7) 7
           (the (napalm_interfaces sample_device)) \<lparr>nb = sample_netbox, printed = []\<rparr> = Inr s'"
    by (simp add: sample_task_def sample_host_def)
  ultimately show ?thesis by blast
qed

subsection \<open>The IP conflict policy\<close>

text \<open>What identifies an IP record for the script: its literal address and the interface it
  is attached to.\<close>

definition ip_view :: "nb_ip_address \<Rightarrow> string \<times> nat" where
  "ip_view r = (address r, interface r)"

text \<open>The inventory interfaces, as read before the loop, whose name is that of the
  interface of the intent.\<close>

definition matching :: "string \<Rightarrow> nb_interface list \<Rightarrow> nb_interface list" where
  "matching name nb_intfs = filter (\<lambda>i. name = interface_name i) nb_intfs"

lemma attach_ip_exists:
  "ip_exists \<noteq> [] \<Longrightarrow>
   attach_ip host name cidr ip_exists nb_intfs s =
     s\<lparr>printed := printed s @
          map (\<lambda>i. c_print (exists_message host cidr)) (matching name nb_intfs)\<rparr>"
  by (induction nb_intfs arbitrary: s) (simp_all add: matching_def)

lemma attach_ip_no_match:
  "matching name nb_intfs = [] \<Longrightarrow> attach_ip host name cidr ip_exists nb_intfs s = s"
  by (induction nb_intfs arbitrary: s) (auto simp: matching_def split: if_splits)

lemma attach_ip_frame:
  "devices (nb (attach_ip host name cidr ip_exists nb_intfs s)) = devices (nb s) \<and>
   dcim_interfaces (nb (attach_ip host name cidr ip_exists nb_intfs s)) = dcim_interfaces (nb s)"
  by (induction nb_intfs arbitrary: s) (simp_all add: create_ip_address_def)

lemma attach_ip_creates:
  "\<exists>new. ip_addresses (nb (attach_ip host name cidr [] nb_intfs s)) = ip_addresses (nb s) @ new \<and>
         map ip_view new = map (\<lambda>i. (cidr, interface_id i)) (matching name nb_intfs) \<and>
         requests (nb (attach_ip host name cidr [] nb_intfs s)) =
           requests (nb s) @ map (\<lambda>i. CreateIpAddress cidr (interface_id i)) (matching name nb_intfs) \<and>
         printed (attach_ip host name cidr [] nb_intfs s) = printed s"
proof (induction nb_intfs arbitrary: s)
  case Nil
  show ?case by (simp add: matching_def)
next
  case (Cons i rest)
  show ?case
  proof (cases "name = interface_name i")
    case True
    let ?r = "\<lparr>ip_address_id = fresh_id (map ip_address_id (ip_addresses (nb s))),
               address = cidr, interface = interface_id i\<rparr>"
    let ?s1 = "s\<lparr>nb := create_ip_address cidr (interface_id i) (nb s)\<rparr>"
    from Cons.IH [of ?s1] obtain new where
      new: "ip_addresses (nb (attach_ip host name cidr [] rest ?s1)) = ip_addresses (nb ?s1) @ new"
        "map ip_view new = map (\<lambda>i. (cidr, interface_id i)) (matching name rest)"
        "requests (nb (attach_ip host name cidr [] rest ?s1)) =
           requests (nb ?s1) @ map (\<lambda>i. CreateIpAddress cidr (interface_id i)) (matching name rest)"
        "printed (attach_ip host name cidr [] rest ?s1) = printed ?s1"
      by blast
    have "ip_addresses (nb (attach_ip host name cidr [] (i # rest) s)) =
            ip_addresses (nb s) @ (?r # new)"
      using True new(1) by (simp add: create_ip_address_def)
    moreover have "map ip_view (?r # new) =
            map (\<lambda>i. (cidr, interface_id i)) (matching name (i # rest))"
      using True new(2) by (simp add: matching_def ip_view_def)
    moreover have "requests (nb (attach_ip host name cidr [] (i # rest) s)) =
           requests (nb s) @
             map (\<lambda>i. CreateIpAddress cidr (interface_id i)) (matching name (i # rest))"
      using True new(3) by (simp add: create_ip_address_def matching_def)
    moreover have "printed (attach_ip host name cidr [] (i # rest) s) = printed s"
      using True new(4) by simp
    ultimately show ?thesis by blast
  next
    case False
    with Cons.IH [of s] show ?thesis by (simp add: matching_def)
  qed
qed

lemma get_ip_addresses_empty:
  "(get_ip_addresses netbox cidr = []) = (cidr \<notin> set (map address (ip_addresses netbox)))"
  by (auto simp: get_ip_addresses_def filter_empty_conv)

text \<open>
  Claim C4. For an interface of the intent whose canonical CIDR string is \<open>cidr\<close>, in
  any state of the inventory, the body of the second loop returns without raising. When
  the inventory has no IP record with that literal string, it creates one with that
  address for each inventory interface of that name, attached to that interface, and
  prints nothing. When the inventory has such a record, it creates nothing and changes no
  record (the IP table and the requests sent are unchanged), and prints the line that asks
  for manual verification. Devices and interfaces are untouched either way.
\<close>

theorem ip_reconcile_step:
  assumes "cidr_string (snd intf) = Inr cidr"
  shows "\<exists>s'. reconcile_ip host nb_intfs intf s = Inr s' \<and>
           devices (nb s') = devices (nb s) \<and>
           dcim_interfaces (nb s') = dcim_interfaces (nb s) \<and>
           (if cidr \<in> set (map address (ip_addresses (nb s)))
            then ip_addresses (nb s') = ip_addresses (nb s) \<and>
                 requests (nb s') = requests (nb s) \<and>
                 printed s' = printed s @
                   map (\<lambda>i. c_print (exists_message host cidr)) (matching (fst intf) nb_intfs)
            else (\<exists>new. ip_addresses (nb s') = ip_addresses (nb s) @ new \<and>
                        map ip_view new =
                          map (\<lambda>i. (cidr, interface_id i)) (matching (fst intf) nb_intfs)) \<and>
                 requests (nb s') = requests (nb s) @
                   map (\<lambda>i. CreateIpAddress cidr (interface_id i)) (matching (fst intf) nb_intfs) \<and>
                 printed s' = printed s)"
proof -
  let ?s' = "attach_ip host (fst intf) cidr (get_ip_addresses (nb s) cidr) nb_intfs s"
  have run: "reconcile_ip host nb_intfs intf s = Inr ?s'"
    using assms by (simp add: reconcile_ip_def)
  note frame = attach_ip_frame [of host "fst intf" cidr "get_ip_addresses (nb s) cidr" nb_intfs s]
  show ?thesis
  proof (cases "cidr \<in> set (map address (ip_addresses (nb s)))")
    case True
    then have "get_ip_addresses (nb s) cidr \<noteq> []" by (simp add: get_ip_addresses_empty)
    from attach_ip_exists [OF this, of host "fst intf" cidr nb_intfs s] True run frame
    show ?thesis by simp
  next
    case False
    then have empty: "get_ip_addresses (nb s) cidr = []" by (simp add: get_ip_addresses_empty)
    from attach_ip_creates [of host "fst intf" cidr nb_intfs s] False run frame empty
    show ?thesis by simp blast
  qed
qed


lemma cidr_string_cfg:
  "cidr_string \<lparr>intent_description = ''Uplink to CSR-2'', ipaddr = ''172.20.12.1 255.255.255.0'',
                 intent_state = ''up''\<rparr> = Inr ''172.20.12.1/24''"
  by (simp add: cidr_string_def ipaddress_defs str_interface.simps string_from_ip_int_def
      to_bytes4_def str_nat.simps)

theorem ip_reconcile_step_witness:
  "\<exists>s1 s2.
     reconcile_ip ''csr1'' (get_interfaces sample_netbox 7)
       (''GigabitEthernet1'',
        \<lparr>intent_description = ''Uplink to CSR-2'', ipaddr = ''172.20.12.1 255.255.255.0'',
           intent_state = ''up''\<rparr>)
       \<lparr>nb = sample_netbox, printed = []\<rparr> = Inr s1 \<and>
     map ip_view (ip_addresses (nb s1)) = [(''172.20.12.1/24'', 3)] \<and>
     printed s1 = [] \<and>
     reconcile_ip ''csr1'' (get_interfaces sample_netbox 7)
       (''GigabitEthernet1'',
        \<lparr>intent_description = ''Uplink to CSR-2'', ipaddr = ''172.20.12.1 255.255.255.0'',
           intent_state = ''up''\<rparr>) s1 = Inr s2 \<and>
     ip_addresses (nb s2) = ip_addresses (nb s1) \<and>
     printed s2 = [c_print (exists_message ''csr1'' ''172.20.12.1/24'')]"
proof -
  let ?S = "get_interfaces sample_netbox 7"
  let ?item = "(''GigabitEthernet1'',
        \<lparr>intent_description = ''Uplink to CSR-2'', ipaddr = ''172.20.12.1 255.255.255.0'',
           intent_state = ''up''\<rparr>)"
  have c: "cidr_string (snd ?item) = Inr ''172.20.12.1/24''"
    using cidr_string_cfg by simp
  have m: "matching (fst ?item) ?S =
      [\<lparr>interface_id = 3, interface_name = ''GigabitEthernet1'',
        device = \<lparr>nested_id = 7, display_name = ''csr1''\<rparr>, interface_type = 1000,
        description = [], mac_address = None\<rparr>]"
    by (simp add: matching_def get_interfaces_def sample_netbox_def)
  from ip_reconcile_step [OF c, of "''csr1''" ?S "\<lparr>nb = sample_netbox, printed = []\<rparr>"]
  obtain s1 where
    run1: "reconcile_ip ''csr1'' ?S ?item \<lparr>nb = sample_netbox, printed = []\<rparr> = Inr s1"
    and ips1: "map ip_view (ip_addresses (nb s1)) = [(''172.20.12.1/24'', 3)]"
    and out1: "printed s1 = []"
    unfolding m by (auto simp: sample_netbox_def)
  from ips1 have here: "''172.20.12.1/24'' \<in> set (map address (ip_addresses (nb s1)))"
    by (auto simp: ip_view_def map_eq_Cons_conv)
  from ip_reconcile_step [OF c, of "''csr1''" ?S s1] here
  obtain s2 where
    run2: "reconcile_ip ''csr1'' ?S ?item s1 = Inr s2"
    and ips2: "ip_addresses (nb s2) = ip_addresses (nb s1)"
    and out2: "printed s2 = printed s1 @
                   map (\<lambda>i. c_print (exists_message ''csr1'' ''172.20.12.1/24'')) (matching (fst ?item) ?S)"
    by auto
  from out2 out1 have out2': "printed s2 = [c_print (exists_message ''csr1'' ''172.20.12.1/24'')]"
    unfolding m by simp
  show ?thesis
  proof (intro exI conjI)
    show "reconcile_ip ''csr1'' ?S ?item \<lparr>nb = sample_netbox, printed = []\<rparr> = Inr s1"
      by (rule run1)
    show "map ip_view (ip_addresses (nb s1)) = [(''172.20.12.1/24'', 3)]" by (rule ips1)
    show "printed s1 = []" by (rule out1)
    show "reconcile_ip ''csr1'' ?S ?item s1 = Inr s2" by (rule run2)
    show "ip_addresses (nb s2) = ip_addresses (nb s1)" by (rule ips2)
    show "printed s2 = [c_print (exists_message ''csr1'' ''172.20.12.1/24'')]" by (rule out2')
  qed
qed

subsection \<open>Running the reconciliation twice\<close>

text \<open>The literal address strings of the IP records, in the order of the table.\<close>

definition addresses :: "netbox \<Rightarrow> string list" where
  "addresses netbox = map address (ip_addresses netbox)"

lemma update_first_idem:
  "update_first P f xs = Some ys \<Longrightarrow> (\<And>x. P (f x) = P x) \<Longrightarrow> (\<And>x. f (f x) = f x) \<Longrightarrow>
   update_first P f ys = Some ys"
  by (induction xs arbitrary: ys) (auto split: if_splits option.splits)

lemma update_device_frame:
  assumes "update_device host a b c netbox = Inr netbox'"
  shows "dcim_interfaces netbox' = dcim_interfaces netbox"
    and "ip_addresses netbox' = ip_addresses netbox"
    and "requests netbox' = requests netbox @ [UpdateDevice host a b c]"
  using assms by (auto simp: update_device_def split: option.splits)

lemma update_device_again:
  assumes "update_device host a b c netbox = Inr netbox'" and "devices other = devices netbox'"
  shows "update_device host a b c other =
           Inr (other\<lparr>requests := requests other @ [UpdateDevice host a b c]\<rparr>)"
proof -
  let ?P = "\<lambda>d. device_name d = host"
  let ?f = "\<lambda>d. d\<lparr>device_type := a, device_role := b, device_site := c\<rparr>"
  from assms(1) have "update_first ?P ?f (devices netbox) = Some (devices netbox')"
    by (auto simp: update_device_def split: option.splits)
  then have "update_first ?P ?f (devices netbox') = Some (devices netbox')"
    by (rule update_first_idem) simp_all
  with assms(2) show ?thesis by (simp add: update_device_def)
qed

lemma get_updated_info_result:
  assumes "get_updated_info dev netbox task = Inr task'"
  shows "host_name task' = host_name task" and "device_id task' = device_id task"
    and "config_vars task' = config_vars task"
    and "nb_interfaces task' = get_interfaces netbox (device_id task)"
    and "napalm_interfaces dev = Some (host_interfaces task')"
  using assms by (auto simp: get_updated_info_def Let_def split: option.splits)

lemma get_updated_info_returns:
  assumes "get_updated_info dev netbox task = Inr task'"
  shows "\<exists>task''. get_updated_info dev netbox2 task2 = Inr task''"
  using assms by (auto simp: get_updated_info_def Let_def split: option.splits)

lemma matching_at_most_one:
  "distinct (map interface_name nb_intfs) \<Longrightarrow> length (matching name nb_intfs) \<le> 1"
  by (induction nb_intfs) (auto simp: matching_def filter_empty_conv image_iff)

lemma names_distinct:
  "keys_distinct table \<Longrightarrow>
   distinct (map interface_name (filter (\<lambda>i. nested_id (device i) = dev_id) table))"
  by (induction table) (auto simp: keys_distinct_def interface_key_def image_iff)

lemma reconcile_ip_addresses:
  assumes "cidr_string (snd item) = Inr cidr"
  shows "\<exists>s'. reconcile_ip host nb_intfs item s = Inr s' \<and>
           devices (nb s') = devices (nb s) \<and>
           dcim_interfaces (nb s') = dcim_interfaces (nb s) \<and>
           addresses (nb s') = addresses (nb s) @
             (if cidr \<in> set (addresses (nb s)) then []
              else replicate (length (matching (fst item) nb_intfs)) cidr)"
proof -
  let ?s' = "attach_ip host (fst item) cidr (get_ip_addresses (nb s) cidr) nb_intfs s"
  have run: "reconcile_ip host nb_intfs item s = Inr ?s'"
    using assms by (simp add: reconcile_ip_def)
  note frame = attach_ip_frame [of host "fst item" cidr "get_ip_addresses (nb s) cidr" nb_intfs s]
  have "addresses (nb ?s') = addresses (nb s) @
             (if cidr \<in> set (addresses (nb s)) then []
              else replicate (length (matching (fst item) nb_intfs)) cidr)"
  proof (cases "cidr \<in> set (addresses (nb s))")
    case True
    then have "get_ip_addresses (nb s) cidr \<noteq> []"
      by (simp add: get_ip_addresses_empty addresses_def)
    from attach_ip_exists [OF this, of host "fst item" cidr nb_intfs s] True
    show ?thesis by (simp add: addresses_def)
  next
    case False
    then have empty: "get_ip_addresses (nb s) cidr = []"
      by (simp add: get_ip_addresses_empty addresses_def)
    from attach_ip_creates [of host "fst item" cidr nb_intfs s] obtain new where
      new: "ip_addresses (nb (attach_ip host (fst item) cidr [] nb_intfs s)) = ip_addresses (nb s) @ new"
        "map ip_view new = map (\<lambda>i. (cidr, interface_id i)) (matching (fst item) nb_intfs)"
      by blast
    have "map address new = map fst (map ip_view new)" by (simp add: ip_view_def comp_def)
    also have "\<dots> = replicate (length (matching (fst item) nb_intfs)) cidr"
      unfolding new(2) by (simp add: comp_def map_replicate_const)
    finally show ?thesis using False new(1) empty by (simp add: addresses_def)
  qed
  with run frame show ?thesis by simp
qed

lemma reconcile_ips_run:
  assumes "reconcile_ips host nb_intfs items s = Inr s'"
  shows "devices (nb s') = devices (nb s) \<and>
         dcim_interfaces (nb s') = dcim_interfaces (nb s) \<and>
         set (addresses (nb s)) \<subseteq> set (addresses (nb s')) \<and>
         (distinct (map interface_name nb_intfs) \<longrightarrow> distinct (addresses (nb s)) \<longrightarrow>
            distinct (addresses (nb s'))) \<and>
         (\<forall>item \<in> set items. \<exists>cidr. cidr_string (snd item) = Inr cidr \<and>
            (matching (fst item) nb_intfs \<noteq> [] \<longrightarrow> cidr \<in> set (addresses (nb s'))))"
  using assms
proof (induction items arbitrary: s)
  case Nil
  then show ?case by simp
next
  case (Cons item rest)
  from Cons.prems obtain s1 where
    one: "reconcile_ip host nb_intfs item s = Inr s1" and
    more: "reconcile_ips host nb_intfs rest s1 = Inr s'"
    by (auto split: sum.splits)
  from one obtain cidr where c: "cidr_string (snd item) = Inr cidr"
    by (auto simp: reconcile_ip_def split: sum.splits)
  from reconcile_ip_addresses [OF c, of host nb_intfs s] one
  have f1: "devices (nb s1) = devices (nb s)" "dcim_interfaces (nb s1) = dcim_interfaces (nb s)"
    and a1: "addresses (nb s1) = addresses (nb s) @
             (if cidr \<in> set (addresses (nb s)) then []
              else replicate (length (matching (fst item) nb_intfs)) cidr)"
    by auto
  note ih = Cons.IH [OF more]
  have sub1: "set (addresses (nb s)) \<subseteq> set (addresses (nb s1))" using a1 by auto
  have here: "matching (fst item) nb_intfs \<noteq> [] \<longrightarrow> cidr \<in> set (addresses (nb s1))"
    using a1 by auto
  have d1: "distinct (map interface_name nb_intfs) \<longrightarrow> distinct (addresses (nb s)) \<longrightarrow>
            distinct (addresses (nb s1))"
  proof (intro impI)
    assume n: "distinct (map interface_name nb_intfs)" and d: "distinct (addresses (nb s))"
    from matching_at_most_one [OF n, of "fst item"]
    have "length (matching (fst item) nb_intfs) = 0 \<or> length (matching (fst item) nb_intfs) = 1"
      by arith
    then show "distinct (addresses (nb s1))" using a1 d by auto
  qed
  show ?case
  proof (intro conjI)
    show "devices (nb s') = devices (nb s)" using ih f1 by simp
    show "dcim_interfaces (nb s') = dcim_interfaces (nb s)" using ih f1 by simp
    show "set (addresses (nb s)) \<subseteq> set (addresses (nb s'))" using ih sub1 by blast
    show "distinct (map interface_name nb_intfs) \<longrightarrow> distinct (addresses (nb s)) \<longrightarrow>
            distinct (addresses (nb s'))" using ih d1 by blast
    show "\<forall>item \<in> set (item # rest). \<exists>cidr. cidr_string (snd item) = Inr cidr \<and>
            (matching (fst item) nb_intfs \<noteq> [] \<longrightarrow> cidr \<in> set (addresses (nb s')))"
    proof
      fix it assume "it \<in> set (item # rest)"
      then consider "it = item" | "it \<in> set rest" by auto
      then show "\<exists>cidr. cidr_string (snd it) = Inr cidr \<and>
            (matching (fst it) nb_intfs \<noteq> [] \<longrightarrow> cidr \<in> set (addresses (nb s')))"
      proof cases
        case 1
        with c here ih show ?thesis by blast
      next
        case 2
        with ih show ?thesis by blast
      qed
    qed
  qed
qed

lemma reconcile_ips_again:
  assumes "\<forall>item \<in> set items. \<exists>cidr. cidr_string (snd item) = Inr cidr \<and>
            (matching (fst item) nb_intfs \<noteq> [] \<longrightarrow> cidr \<in> set (addresses (nb s)))"
  shows "\<exists>s'. reconcile_ips host nb_intfs items s = Inr s' \<and> nb s' = nb s"
  using assms
proof (induction items arbitrary: s)
  case Nil
  show ?case by simp
next
  case (Cons item rest)
  from Cons.prems obtain cidr where c: "cidr_string (snd item) = Inr cidr"
    and m: "matching (fst item) nb_intfs \<noteq> [] \<longrightarrow> cidr \<in> set (addresses (nb s))"
    by auto
  let ?s1 = "attach_ip host (fst item) cidr (get_ip_addresses (nb s) cidr) nb_intfs s"
  have one: "reconcile_ip host nb_intfs item s = Inr ?s1"
    using c by (simp add: reconcile_ip_def)
  have same: "nb ?s1 = nb s"
  proof (cases "matching (fst item) nb_intfs = []")
    case True
    then show ?thesis by (simp add: attach_ip_no_match)
  next
    case False
    with m have "get_ip_addresses (nb s) cidr \<noteq> []"
      by (simp add: get_ip_addresses_empty addresses_def)
    then show ?thesis by (simp add: attach_ip_exists)
  qed
  from Cons.prems same have "\<forall>item \<in> set rest. \<exists>cidr. cidr_string (snd item) = Inr cidr \<and>
            (matching (fst item) nb_intfs \<noteq> [] \<longrightarrow> cidr \<in> set (addresses (nb ?s1)))"
    by simp
  from Cons.IH [OF this] one same show ?case by auto
qed

lemma upsert_interfaces_again:
  assumes kd: "keys_distinct table" and refs: "refs_ok host dev_id table"
      and all: "\<forall>item \<in> set items. \<exists>i \<in> set table.
                  interface_key i = (dev_id, fst item) \<and> written (snd item) i"
      and tab: "dcim_interfaces (nb s) = table"
  shows "\<exists>s'. upsert_interfaces host (filter (\<lambda>i. nested_id (device i) = dev_id) table)
                dev_id items s = Inr s' \<and>
           dcim_interfaces (nb s') = table \<and>
           devices (nb s') = devices (nb s) \<and>
           ip_addresses (nb s') = ip_addresses (nb s) \<and>
           requests (nb s') = requests (nb s) @
             map (\<lambda>item. UpdateInterface host (fst item) (fact_description (snd item))
                            (normalize_mac (fact_mac_address (snd item)))) items"
  using all tab
proof (induction items arbitrary: s)
  case Nil
  then show ?case by simp
next
  case (Cons item rest)
  let ?S = "filter (\<lambda>i. nested_id (device i) = dev_id) table"
  let ?d = "fact_description (snd item)"
  let ?m = "normalize_mac (fact_mac_address (snd item))"
  let ?upd = "\<lambda>i. if interface_key i = (dev_id, fst item)
                    then i\<lparr>description := ?d, mac_address := ?m\<rparr> else i"
  from Cons.prems(1) obtain j where j: "j \<in> set table" "interface_key j = (dev_id, fst item)"
    "written (snd item) j" by auto
  from j have here: "(dev_id, fst item) \<in> set (map interface_key table)" by force
  have present: "is_interface_present ?S host (fst item)"
    using present_iff_key [OF refs] here by simp
  from kd have inj: "inj_on interface_key (set table)"
    by (simp add: keys_distinct_def distinct_map)
  have "map ?upd table = table"
  proof (rule map_idI)
    fix i assume i: "i \<in> set table"
    show "?upd i = i"
    proof (cases "interface_key i = (dev_id, fst item)")
      case True
      with j(2) have "interface_key i = interface_key j" by simp
      from inj_onD [OF inj this i j(1)] have "i = j" .
      with j(3) True show ?thesis by (simp add: written_def)
    next
      case False
      then show ?thesis by simp
    qed
  qed
  with update_interface_keyed [of "nb s" host dev_id "fst item" ?d ?m] kd refs here Cons.prems(2)
  have upd: "update_interface host (fst item) ?d ?m (nb s) =
      Inr ((nb s)\<lparr>dcim_interfaces := table,
                  requests := requests (nb s) @ [UpdateInterface host (fst item) ?d ?m]\<rparr>)"
    by simp
  let ?s1 = "s\<lparr>nb := (nb s)\<lparr>dcim_interfaces := table,
                  requests := requests (nb s) @ [UpdateInterface host (fst item) ?d ?m]\<rparr>,
               printed := printed s @ [c_print (updating_message host (fst item))]\<rparr>"
  have one: "upsert_interface host ?S dev_id item s = Inr ?s1"
    using present upd by (simp add: upsert_interface_def Let_def)
  from Cons.prems(1) have rest: "\<forall>item \<in> set rest. \<exists>i \<in> set table.
                  interface_key i = (dev_id, fst item) \<and> written (snd item) i" by simp
  have "dcim_interfaces (nb ?s1) = table" by simp
  from Cons.IH [OF rest this] one show ?case by auto
qed


lemma update_netbox_steps:
  assumes "update_netbox dev task s = Inr (task', s')"
  obtains ta sa sb nbc where
    "get_updated_info dev (nb s) task = Inr ta"
    "upsert_interfaces (host_name ta) (nb_interfaces ta) (device_id ta) (host_interfaces ta) s = Inr sa"
    "get_updated_info dev (nb sa) ta = Inr task'"
    "reconcile_ips (host_name task') (nb_interfaces task') (interfaces (config_vars task')) sa = Inr sb"
    "update_device (host_name task') 2 2 1 (nb sb) = Inr nbc"
    "s' = sb\<lparr>nb := nbc, printed := printed sb @ [c_print (moved_message (host_name task'))]\<rparr>"
  using assms unfolding update_netbox_def
  by (auto split: sum.splits)

text \<open>Claim C3, amended. On a well-formed inventory, for the device of the host and facts whose
  interface names are distinct, when \<open>update_netbox\<close> has returned, running it again
  with the same facts on the inventory it has left returns as well and leaves the three
  tables of the inventory as they are: no interface record and no IP record is created.
  The requests of the second run are one update for each interface of the facts, with the
  description and MAC address the record already has, followed by the update of the device,
  sent again with the type, role and site the device already has. The inventory has no two
  interface records with the same device and name, and no two IP records with the same
  literal address.\<close>

theorem reconcile_idempotent:
  assumes ok: "inventory_ok (nb s0)"
      and cv: "get_config_vars (nb s0) task0 = Inr task"
      and facts: "napalm_interfaces dev = Some facts"
      and keys: "distinct (map fst facts)"
      and run1: "update_netbox dev task s0 = Inr (task1, s1)"
  shows "\<exists>task2 s2. update_netbox dev task1 s1 = Inr (task2, s2) \<and>
           devices (nb s2) = devices (nb s1) \<and>
           dcim_interfaces (nb s2) = dcim_interfaces (nb s1) \<and>
           ip_addresses (nb s2) = ip_addresses (nb s1) \<and>
           requests (nb s2) = requests (nb s1) @
             map (\<lambda>item. UpdateInterface (host_name task) (fst item) (fact_description (snd item))
                            (normalize_mac (fact_mac_address (snd item)))) facts @
             [UpdateDevice (host_name task) 2 2 1] \<and>
           keys_distinct (dcim_interfaces (nb s2)) \<and>
           distinct (map address (ip_addresses (nb s2)))"
proof -
  let ?host = "host_name task" and ?dev = "device_id task"
  let ?intent = "interfaces (config_vars task)"
  note known = get_config_vars_known(2) [OF ok cv]
  note refs0 = get_config_vars_known(3) [OF ok cv]
  from ok have kd0: "keys_distinct (dcim_interfaces (nb s0))"
    and da0: "distinct (addresses (nb s0))"
    by (simp_all add: inventory_ok_def addresses_def)
  \<comment> \<open>The first run, step by step.\<close>
  from run1 obtain ta sa sb nbc where
    g1: "get_updated_info dev (nb s0) task = Inr ta" and
    l1: "upsert_interfaces (host_name ta) (nb_interfaces ta) (device_id ta) (host_interfaces ta) s0 = Inr sa" and
    g2: "get_updated_info dev (nb sa) ta = Inr task1" and
    l2: "reconcile_ips (host_name task1) (nb_interfaces task1) (interfaces (config_vars task1)) sa = Inr sb" and
    ud: "update_device (host_name task1) 2 2 1 (nb sb) = Inr nbc" and
    s1: "s1 = sb\<lparr>nb := nbc, printed := printed sb @ [c_print (moved_message (host_name task1))]\<rparr>"
    by (rule update_netbox_steps)
  note ta = get_updated_info_result [OF g1]
  note t1 = get_updated_info_result [OF g2]
  from ta(5) facts have fa: "host_interfaces ta = facts" by simp
  have h1: "host_name task1 = ?host" "device_id task1 = ?dev" "config_vars task1 = config_vars task"
    using ta t1 by simp_all
  let ?T1 = "dcim_interfaces (nb sa)"
  let ?S = "filter (\<lambda>i. nested_id (device i) = ?dev) ?T1"
  have snap1: "nb_interfaces task1 = ?S" using t1(4) ta(2) by (simp add: get_interfaces_def)
  \<comment> \<open>The first loop of the first run.\<close>
  have start: "upsert_inv ?host ?dev (nb s0) [] (nb s0)"
    by (rule upsert_inv_start [OF kd0 refs0])
  from keys have "distinct (map fst ([] @ facts))" by simp
  from upsert_interfaces_inv [OF start refs0 known this] l1 ta fa
  have inv: "upsert_inv ?host ?dev (nb s0) facts (nb sa)" by auto
  from inv have kd1: "keys_distinct ?T1" and refs1: "refs_ok ?host ?dev ?T1"
    and ips_a: "ip_addresses (nb sa) = ip_addresses (nb s0)"
    by (simp_all add: upsert_inv_def)
  have written_all: "\<forall>item \<in> set facts. \<exists>i \<in> set ?T1.
               interface_key i = (?dev, fst item) \<and> written (snd item) i"
  proof
    fix item assume item: "item \<in> set facts"
    with inv have "(?dev, fst item) \<in> set (map interface_key ?T1)"
      by (simp add: upsert_inv_def)
    then obtain i where i: "i \<in> set ?T1" "interface_key i = (?dev, fst item)" by auto
    with inv item have "written (snd item) i" by (simp add: upsert_inv_def)
    with i show "\<exists>i \<in> set ?T1. interface_key i = (?dev, fst item) \<and> written (snd item) i"
      by blast
  qed
  \<comment> \<open>The second loop of the first run, and the lifecycle update.\<close>
  from l2 h1 snap1 have l2': "reconcile_ips ?host ?S ?intent sa = Inr sb" by simp
  note r2 = reconcile_ips_run [OF l2']
  from r2 have tab_b: "dcim_interfaces (nb sb) = ?T1" and dev_b: "devices (nb sb) = devices (nb sa)"
    by simp_all
  from da0 ips_a have "distinct (addresses (nb sa))" by (simp add: addresses_def)
  with r2 names_distinct [OF kd1, of ?dev] have da_b: "distinct (addresses (nb sb))" by blast
  from r2 have post: "\<forall>item \<in> set ?intent. \<exists>cidr. cidr_string (snd item) = Inr cidr \<and>
            (matching (fst item) ?S \<noteq> [] \<longrightarrow> cidr \<in> set (addresses (nb sb)))" by blast
  from ud h1 have ud': "update_device ?host 2 2 1 (nb sb) = Inr nbc" by simp
  note fr = update_device_frame [OF ud']
  have tab_1: "dcim_interfaces (nb s1) = ?T1" using s1 fr(1) tab_b by simp
  have ips_1: "ip_addresses (nb s1) = ip_addresses (nb sb)" using s1 fr(2) by simp
  have dev_1: "devices (nb s1) = devices nbc" using s1 by simp
  \<comment> \<open>The second run.\<close>
  from get_updated_info_returns [OF g1] obtain tc where
    g3: "get_updated_info dev (nb s1) task1 = Inr tc" by blast
  note tc = get_updated_info_result [OF g3]
  from tc(5) facts have fc: "host_interfaces tc = facts" by simp
  have snap_c: "nb_interfaces tc = ?S" using tc(4) h1 tab_1 by (simp add: get_interfaces_def)
  from upsert_interfaces_again [OF kd1 refs1 written_all tab_1]
  obtain sc where
    l3: "upsert_interfaces ?host ?S ?dev facts s1 = Inr sc" and
    tab_c: "dcim_interfaces (nb sc) = ?T1" and
    dev_c: "devices (nb sc) = devices (nb s1)" and
    ips_c: "ip_addresses (nb sc) = ip_addresses (nb s1)" and
    req_c: "requests (nb sc) = requests (nb s1) @
             map (\<lambda>item. UpdateInterface ?host (fst item) (fact_description (snd item))
                            (normalize_mac (fact_mac_address (snd item)))) facts"
    by blast
  from get_updated_info_returns [OF g1] obtain td where
    g4: "get_updated_info dev (nb sc) tc = Inr td" by blast
  note td = get_updated_info_result [OF g4]
  have hd: "host_name td = ?host" "device_id td = ?dev" "config_vars td = config_vars task"
    using td tc h1 by simp_all
  have snap_d: "nb_interfaces td = ?S" using td(4) tc(2) h1 tab_c by (simp add: get_interfaces_def)
  have "addresses (nb sc) = addresses (nb sb)" using ips_c ips_1 by (simp add: addresses_def)
  with post have "\<forall>item \<in> set ?intent. \<exists>cidr. cidr_string (snd item) = Inr cidr \<and>
            (matching (fst item) ?S \<noteq> [] \<longrightarrow> cidr \<in> set (addresses (nb sc)))" by simp
  from reconcile_ips_again [OF this, of ?host] obtain se where
    l4: "reconcile_ips ?host ?S ?intent sc = Inr se" and nb_e: "nb se = nb sc" by blast
  have "devices (nb se) = devices nbc" using nb_e dev_c dev_1 by simp
  from update_device_again [OF ud' this]
  have ud2: "update_device ?host 2 2 1 (nb se) =
      Inr ((nb se)\<lparr>requests := requests (nb se) @ [UpdateDevice ?host 2 2 1]\<rparr>)" .
  let ?s2 = "se\<lparr>nb := (nb se)\<lparr>requests := requests (nb se) @ [UpdateDevice ?host 2 2 1]\<rparr>,
               printed := printed se @ [c_print (moved_message ?host)]\<rparr>"
  have run2: "update_netbox dev task1 s1 = Inr (td, ?s2)"
    unfolding update_netbox_def
    using g3 l3 g4 l4 ud2 tc(1,2) h1 fc snap_c hd snap_d
    by simp
  show ?thesis
  proof (intro exI conjI)
    show "update_netbox dev task1 s1 = Inr (td, ?s2)" by (rule run2)
    show "devices (nb ?s2) = devices (nb s1)" using nb_e dev_c by simp
    show "dcim_interfaces (nb ?s2) = dcim_interfaces (nb s1)" using nb_e tab_c tab_1 by simp
    show "ip_addresses (nb ?s2) = ip_addresses (nb s1)" using nb_e ips_c by simp
    show "requests (nb ?s2) = requests (nb s1) @
             map (\<lambda>item. UpdateInterface ?host (fst item) (fact_description (snd item))
                            (normalize_mac (fact_mac_address (snd item)))) facts @
             [UpdateDevice ?host 2 2 1]" using nb_e req_c by simp
    show "keys_distinct (dcim_interfaces (nb ?s2))" using nb_e tab_c kd1 by simp
    show "distinct (map address (ip_addresses (nb ?s2)))"
      using nb_e ips_c ips_1 da_b by (simp add: addresses_def)
  qed
qed

lemma sample_first_run:
  "\<exists>task1 s1.
     update_netbox sample_device sample_task \<lparr>nb = sample_netbox, printed = []\<rparr> = Inr (task1, s1) \<and>
     map ip_view (ip_addresses (nb s1)) =
       [(''172.20.12.1/24'', 3), (''172.20.13.1/24'', 4), (''1.1.1.1/32'', 5)] \<and>
     map interface_key (dcim_interfaces (nb s1)) =
       [(7, ''GigabitEthernet1''), (7, ''GigabitEthernet2''), (7, ''Loopback0'')] \<and>
     map device_role (devices (nb s1)) = [2]"
  by (simp add: update_netbox_def get_updated_info_def sample_device_def sample_task_def
      sample_host_def sample_netbox_def get_interfaces_def upsert_interface_def
      create_interface_def update_interface_def get_devices_by_id_def normalize_mac_def
      fresh_id_def reconcile_ip_def cidr_string_def cfg_def get_ip_addresses_def
      create_ip_address_def update_device_def ipaddress_defs str_interface.simps
      string_from_ip_int_def to_bytes4_def str_nat.simps ip_view_def interface_key_def)

theorem reconcile_idempotent_witness:
  "\<exists>task1 s1 task2 s2.
     update_netbox sample_device sample_task \<lparr>nb = sample_netbox, printed = []\<rparr> = Inr (task1, s1) \<and>
     map ip_view (ip_addresses (nb s1)) =
       [(''172.20.12.1/24'', 3), (''172.20.13.1/24'', 4), (''1.1.1.1/32'', 5)] \<and>
     map interface_key (dcim_interfaces (nb s1)) =
       [(7, ''GigabitEthernet1''), (7, ''GigabitEthernet2''), (7, ''Loopback0'')] \<and>
     update_netbox sample_device task1 s1 = Inr (task2, s2) \<and>
     devices (nb s2) = devices (nb s1) \<and>
     dcim_interfaces (nb s2) = dcim_interfaces (nb s1) \<and>
     ip_addresses (nb s2) = ip_addresses (nb s1) \<and>
     keys_distinct (dcim_interfaces (nb s2)) \<and>
     distinct (map address (ip_addresses (nb s2)))"
proof -
  let ?s0 = "\<lparr>nb = sample_netbox, printed = []\<rparr>"
  let ?facts = "[(''GigabitEthernet1'',
               \<lparr>fact_description = ''Uplink to CSR-2'', fact_mac_address = Some ''52:54:00:0A:0B:01''\<rparr>),
              (''GigabitEthernet2'',
               \<lparr>fact_description = ''Uplink to CSR-3'', fact_mac_address = Some ''Unspecified''\<rparr>),
              (''Loopback0'',
               \<lparr>fact_description = ''Router ID'', fact_mac_address = None\<rparr>)]"
  from sample_first_run obtain task1 s1 where
    run1: "update_netbox sample_device sample_task ?s0 = Inr (task1, s1)" and
    ips: "map ip_view (ip_addresses (nb s1)) =
       [(''172.20.12.1/24'', 3), (''172.20.13.1/24'', 4), (''1.1.1.1/32'', 5)]" and
    ifs: "map interface_key (dcim_interfaces (nb s1)) =
       [(7, ''GigabitEthernet1''), (7, ''GigabitEthernet2''), (7, ''Loopback0'')]"
    by (elim exE conjE) (rule that)
  have ok: "inventory_ok (nb ?s0)" using sample_inventory_ok by simp
  have cv: "get_config_vars (nb ?s0) sample_host = Inr sample_task"
    using sample_get_config_vars by simp
  have facts: "napalm_interfaces sample_device = Some ?facts" by (simp add: sample_device_def)
  have keys: "distinct (map fst ?facts)" by simp
  from reconcile_idempotent [OF ok cv facts keys run1] obtain task2 s2 where
    run2: "update_netbox sample_device task1 s1 = Inr (task2, s2)" and
    same: "devices (nb s2) = devices (nb s1)" "dcim_interfaces (nb s2) = dcim_interfaces (nb s1)"
      "ip_addresses (nb s2) = ip_addresses (nb s1)" and
    nodup: "keys_distinct (dcim_interfaces (nb s2))" "distinct (map address (ip_addresses (nb s2)))"
    by blast
  show ?thesis
  proof (intro exI conjI)
    show "update_netbox sample_device sample_task ?s0 = Inr (task1, s1)" by (rule run1)
    show "map ip_view (ip_addresses (nb s1)) =
       [(''172.20.12.1/24'', 3), (''172.20.13.1/24'', 4), (''1.1.1.1/32'', 5)]" by (rule ips)
    show "map interface_key (dcim_interfaces (nb s1)) =
       [(7, ''GigabitEthernet1''), (7, ''GigabitEthernet2''), (7, ''Loopback0'')]" by (rule ifs)
    show "update_netbox sample_device task1 s1 = Inr (task2, s2)" by (rule run2)
    show "devices (nb s2) = devices (nb s1)" by (rule same)
    show "dcim_interfaces (nb s2) = dcim_interfaces (nb s1)" by (rule same)
    show "ip_addresses (nb s2) = ip_addresses (nb s1)" by (rule same)
    show "keys_distinct (dcim_interfaces (nb s2))" by (rule nodup)
    show "distinct (map address (ip_addresses (nb s2)))" by (rule nodup)
  qed
qed

text \<open>The requests that a second run of \<open>update_netbox\<close> sends, after a first run on the
  same device; and the requests that update an interface record.\<close>

definition is_interface_update :: "nb_request \<Rightarrow> bool" where
  "is_interface_update r = (case r of UpdateInterface host name descr mac \<Rightarrow> True | _ \<Rightarrow> False)"

definition second_run_requests ::
  "device_transport \<Rightarrow> host_data \<Rightarrow> nb_session \<Rightarrow> exn + nb_request list" where
  "second_run_requests dev task s0 =
     (case update_netbox dev task s0 of
        Inl e \<Rightarrow> Inl e
      | Inr (task1, s1) \<Rightarrow>
          (case update_netbox dev task1 s1 of
             Inl e \<Rightarrow> Inl e
           | Inr (task2, s2) \<Rightarrow> Inr (drop (length (requests (nb s1))) (requests (nb s2)))))"

text \<open>Claim C3 as it is stated fails: the updates of interface records are not the only mutations
  of the second run. On the sample inventory the second run sends the three updates of the
  interfaces and then the update of the device.\<close>

theorem second_run_updates_device:
  "second_run_requests sample_device sample_task \<lparr>nb = sample_netbox, printed = []\<rparr> =
     Inr [UpdateInterface ''csr1'' ''GigabitEthernet1'' ''Uplink to CSR-2''
            (Some ''52:54:00:0A:0B:01''),
          UpdateInterface ''csr1'' ''GigabitEthernet2'' ''Uplink to CSR-3''
            (Some ''EE:EE:EE:EE:EE:EE''),
          UpdateInterface ''csr1'' ''Loopback0'' ''Router ID'' None,
          UpdateDevice ''csr1'' 2 2 1] \<and>
   \<not> list_all is_interface_update
       [UpdateInterface ''csr1'' ''GigabitEthernet1'' ''Uplink to CSR-2''
          (Some ''52:54:00:0A:0B:01''),
        UpdateInterface ''csr1'' ''GigabitEthernet2'' ''Uplink to CSR-3''
          (Some ''EE:EE:EE:EE:EE:EE''),
        UpdateInterface ''csr1'' ''Loopback0'' ''Router ID'' None,
        UpdateDevice ''csr1'' 2 2 1]"
  by code_simp

section \<open>The stage sequencer: \<open>kickoff\<close>, \<open>proceed\<close> and \<open>main\<close>\<close>

subsection \<open>The state of the process\<close>

text \<open>The nine tasks that \<open>main\<close> hands to \<open>nr.run\<close>, named after the functions of the
  script.\<close>

datatype stage =
    Task_scp_enable
  | Task_get_config_vars
  | Task_render_configs
  | Task_apply_l3_configs
  | Task_validate_l3
  | Task_apply_bgp_configs
  | Task_validate_bgp
  | Task_update_netbox
  | Task_scp_disable

text \<open>What the process does that can be observed, in order: a text printed, the line
  \<open>Failed hosts:\<close> with the set it shows, a prompt with the operator's answer, the run of
  a task on a host (with whether the task failed there), and a sleep.\<close>

datatype event =
    Printed string
  | FailedHosts "string set"
  | Prompted string
  | Ran stage string bool
  | Slept nat

text \<open>The state: the hosts of the filtered inventory (\<open>nr.inventory.hosts\<close>, a dictionary
  keyed by name), the set \<open>nr.data.failed_hosts\<close>, the world outside the process (the
  devices and the inventory service, on which the tasks act), the lines the operator will
  type, and the events so far.\<close>

record 'w run_state =
  hosts :: "string list"
  failed_hosts :: "string set"
  world :: 'w
  stdin :: "string list"
  trace :: "event list"

text \<open>How the process ends when it does not return from \<open>main\<close>: \<open>exit()\<close> raises
  \<open>SystemExit\<close> with its argument (\<open>None\<close> when there is none), and an exception that
  nothing catches ends the process too.\<close>

datatype outcome =
    SystemExit "int option"
  | Uncaught exn

text \<open>The exit status of the process: 0 after a return from \<open>main\<close> and after
  \<open>SystemExit\<close> with \<open>None\<close>, the argument of \<open>SystemExit\<close> otherwise, and 1 after an
  uncaught exception.\<close>

definition exit_code :: "(outcome \<times> 's) + 's \<Rightarrow> int" where
  "exit_code r =
     (case r of
        Inr s \<Rightarrow> 0
      | Inl (SystemExit None, s) \<Rightarrow> 0
      | Inl (SystemExit (Some n), s) \<Rightarrow> n
      | Inl (Uncaught e, s) \<Rightarrow> 1)"

subsection \<open>Printing\<close>

definition say :: "string \<Rightarrow> 'w run_state \<Rightarrow> 'w run_state" where
  "say printme s = s\<lparr>trace := trace s @ [Printed (c_print printme)]\<rparr>"

text \<open>\<open>print("~" * 80)\<close>.\<close>

definition rule_line :: "'w run_state \<Rightarrow> 'w run_state" where
  "rule_line s = s\<lparr>trace := trace s @ [Printed (replicate 80 CHR ''~'')]\<rparr>"

text \<open>\<open>c_print(f"Failed hosts: {nr.data.failed_hosts}")\<close>.\<close>

definition report_failed :: "'w run_state \<Rightarrow> 'w run_state" where
  "report_failed s = s\<lparr>trace := trace s @ [FailedHosts (failed_hosts s)]\<rparr>"

text \<open>\<open>time.sleep(n)\<close>.\<close>

definition sleep :: "nat \<Rightarrow> 'w run_state \<Rightarrow> 'w run_state" where
  "sleep n s = s\<lparr>trace := trace s @ [Slept n]\<rparr>"

subsection \<open>\<open>proceed\<close>\<close>

text \<open>\<open>str.lower\<close> on ASCII text.\<close>

definition lower_char :: "char \<Rightarrow> char" where
  "lower_char c =
     (case map_of (zip ''ABCDEFGHIJKLMNOPQRSTUVWXYZ'' ''abcdefghijklmnopqrstuvwxyz'') c of
        Some l \<Rightarrow> l
      | None \<Rightarrow> c)"

definition lower :: "string \<Rightarrow> string" where
  "lower s = map lower_char s"

text \<open>The prompt: \<open>input\<close> reads the next line of the operator, and raises \<open>EOFError\<close>
  when there is none; any answer but \<open>y\<close> or \<open>Y\<close> ends the process through \<open>exit()\<close>.\<close>

definition proceed :: "'w run_state \<Rightarrow> (outcome \<times> 'w run_state) + 'w run_state" where
  "proceed s =
     (let s1 = say ''********** PROCEED? **********'' s
      in (case stdin s1 of
            [] \<Rightarrow> Inl (Uncaught EOFError, s1)
          | confirm # rest \<Rightarrow>
              (let s2 = s1\<lparr>stdin := rest, trace := trace s1 @ [Prompted confirm]\<rparr>
               in if lower confirm \<noteq> ''y''
                  then Inl (SystemExit None, rule_line (say ''******* EXITING SCRIPT *******'' s2))
                  else Inr (say ''********* PROCEEDING *********'' s2))))"

subsection \<open>\<open>kickoff\<close>\<close>

text \<open>The inventory that \<open>InitNornir\<close> loads is a dictionary from the host name to the host,
  here with its role; \<open>nr.filter(role="wan-router-provision")\<close> keeps the hosts of that
  role. With no host left, \<open>kickoff\<close> prints and calls \<open>exit()\<close>.\<close>

definition kickoff ::
  "(string \<times> string) list \<Rightarrow> 'w run_state \<Rightarrow> (outcome \<times> 'w run_state) + 'w run_state" where
  "kickoff inventory s =
     (let nr = s\<lparr>hosts := map fst (filter (\<lambda>h. snd h = ''wan-router-provision'') inventory)\<rparr>
      in if length (hosts nr) = 0
         then Inl (SystemExit None,
                   rule_line (say ''*** No matching hosts found in inventory ***'' nr))
         else Inr (fold (\<lambda>host. say (''*** '' @ host @ '' ***'')) (hosts nr)
                     (say ''Inventory includes the following devices:''
                        (say ''This script will provision Cisco CSR1000v WAN routers'' nr))))"

subsection \<open>Running a task on the cohort\<close>

text \<open>
  Modelled from the spec: \<open>nr.run\<close> (the nornir library is not a file of the repository).
  The specification has a stage executed across all devices of the current cohort, the
  devices that have not failed a prior stage; the failure of a task on a device is recorded
  for that device and never raises out of the run; the set of failed hosts collects the
  devices that failed. A task is a function of the host and the world that says whether it
  failed and gives the new world; the devices of the cohort are taken in the order of the
  inventory.
\<close>

fun run_tasks ::
  "(string \<Rightarrow> 'w \<Rightarrow> bool \<times> 'w) \<Rightarrow> string list \<Rightarrow> 'w \<Rightarrow> (string \<times> bool) list \<times> 'w" where
  "run_tasks task [] w = ([], w)"
| "run_tasks task (host # rest) w =
     (case task host w of
        (failed, w1) \<Rightarrow>
          (case run_tasks task rest w1 of
             (results, w2) \<Rightarrow> ((host, failed) # results, w2)))"

definition run ::
  "(stage \<Rightarrow> string \<Rightarrow> 'w \<Rightarrow> bool \<times> 'w) \<Rightarrow> stage \<Rightarrow> 'w run_state \<Rightarrow> 'w run_state" where
  "run tasks st nr =
     (let run_on = filter (\<lambda>host. host \<notin> failed_hosts nr) (hosts nr)
      in (case run_tasks (tasks st) run_on (world nr) of
            (results, w) \<Rightarrow>
              nr\<lparr>world := w,
                 failed_hosts := failed_hosts nr \<union> set (map fst (filter snd results)),
                 trace := trace nr @ map (\<lambda>r. Ran st (fst r) (snd r)) results\<rparr>))"

text \<open>What follows every \<open>nr.run\<close> in \<open>main\<close>: the line of the failed hosts and the rule.\<close>

definition run_and_report ::
  "(stage \<Rightarrow> string \<Rightarrow> 'w \<Rightarrow> bool \<times> 'w) \<Rightarrow> stage \<Rightarrow> 'w run_state \<Rightarrow> 'w run_state" where
  "run_and_report tasks st nr = rule_line (report_failed (run tasks st nr))"

subsection \<open>\<open>main\<close>\<close>

text \<open>The script from \<open>kickoff\<close> to the last rule, for the inventory that \<open>InitNornir\<close>
  finds, the lines the operator types and the world at the start.\<close>

definition main ::
  "(stage \<Rightarrow> string \<Rightarrow> 'w \<Rightarrow> bool \<times> 'w) \<Rightarrow> (string \<times> string) list \<Rightarrow> string list \<Rightarrow> 'w
     \<Rightarrow> (outcome \<times> 'w run_state) + 'w run_state" where
  "main tasks inventory answers w0 =
     (case kickoff inventory
             \<lparr>hosts = [], failed_hosts = {}, world = w0, stdin = answers, trace = []\<rparr> of
        Inl x \<Rightarrow> Inl x
      | Inr nr0 \<Rightarrow>
     (case proceed nr0 of
        Inl x \<Rightarrow> Inl x
      | Inr nr1 \<Rightarrow>
     (let nr2 = rule_line nr1;
          nr3 = run_and_report tasks Task_scp_enable
                  (say ''Enabling SCP for NAPALM on all devices'' nr2);
          nr4 = run_and_report tasks Task_get_config_vars
                  (say ''Gathering device configuration variables from Netbox'' nr3);
          nr5 = run_and_report tasks Task_render_configs
                  (say ''Rendering device configurations'' nr4)
      in (case proceed (say ''Applying Layer 3 configuration files to all devices'' nr5) of
            Inl x \<Rightarrow> Inl x
          | Inr nr6 \<Rightarrow>
     (let nr7 = run_and_report tasks Task_apply_l3_configs nr6;
          nr8 = run_and_report tasks Task_validate_l3
                  (sleep 20 (say ''Validating Layer 3 connectivity'' nr7))
      in (case proceed (say ''Applying BGP routing configuration files to all devices'' nr8) of
            Inl x \<Rightarrow> Inl x
          | Inr nr9 \<Rightarrow>
     (let nr10 = run_and_report tasks Task_apply_bgp_configs nr9;
          nr11 = run_and_report tasks Task_validate_bgp
                   (sleep 20 (say ''Validating BGP adjacencies'' nr10));
          nr12 = run_and_report tasks Task_update_netbox
                   (say ''Updating Netbox with information from devices'' nr11);
          nr13 = run_and_report tasks Task_scp_disable
                   (say ''Disabling SCP server on all devices'' nr12)
      in Inr nr13)))))))"

section \<open>The stages of a run\<close>

text \<open>The nine tasks that \<open>main\<close> hands to \<open>nr.run\<close>, in the order of the calls.\<close>

definition pipeline :: "stage list" where
  "pipeline =
     [Task_scp_enable, Task_get_config_vars, Task_render_configs, Task_apply_l3_configs,
      Task_validate_l3, Task_apply_bgp_configs, Task_validate_bgp, Task_update_netbox,
      Task_scp_disable]"

text \<open>What a trace says of a stage: the devices the task of the stage ran on, in order.\<close>

fun ran_on :: "event list \<Rightarrow> stage \<Rightarrow> string list" where
  "ran_on [] st = []"
| "ran_on (Ran st' host failed # tr) st = (if st' = st then host # ran_on tr st else ran_on tr st)"
| "ran_on (e # tr) st = ran_on tr st"

text \<open>The devices on which the task of the stage failed.\<close>

fun failed_on :: "event list \<Rightarrow> stage \<Rightarrow> string set" where
  "failed_on [] st = {}"
| "failed_on (Ran st' host failed # tr) st =
     (if st' = st \<and> failed then insert host (failed_on tr st) else failed_on tr st)"
| "failed_on (e # tr) st = failed_on tr st"

text \<open>The sets of failed hosts printed after the stages, in order.\<close>

fun reports :: "event list \<Rightarrow> string set list" where
  "reports [] = []"
| "reports (FailedHosts hs # tr) = hs # reports tr"
| "reports (e # tr) = reports tr"

text \<open>The devices that failed one of the stages listed before \<open>st\<close>.\<close>

definition failed_before :: "stage list \<Rightarrow> event list \<Rightarrow> stage \<Rightarrow> string set" where
  "failed_before stages tr st = \<Union> (failed_on tr ` set (takeWhile (\<lambda>x. x \<noteq> st) stages))"

text \<open>The state after the stages \<open>seen\<close>: each of them ran on the devices of the
  inventory that failed none of the stages before it, in the order of the inventory, and no
  other stage ran; the set of failed hosts holds the devices that failed one of the stages;
  and the report printed after a stage holds the devices that failed that stage or one
  before it.\<close>

definition cohort_inv :: "stage list \<Rightarrow> 'w run_state \<Rightarrow> bool" where
  "cohort_inv seen s =
     ((\<forall>st. ran_on (trace s) st =
              (if st \<in> set seen
               then filter (\<lambda>host. host \<notin> failed_before seen (trace s) st) (hosts s)
               else [])) \<and>
      failed_hosts s = \<Union> (failed_on (trace s) ` set seen) \<and>
      reports (trace s) =
        map (\<lambda>st. failed_before seen (trace s) st \<union> failed_on (trace s) st) seen)"

lemma ran_on_append: "ran_on (tr @ tr') st = ran_on tr st @ ran_on tr' st"
  by (induction tr st rule: ran_on.induct) auto

lemma failed_on_append: "failed_on (tr @ tr') st = failed_on tr st \<union> failed_on tr' st"
  by (induction tr st rule: failed_on.induct) auto

lemma reports_append: "reports (tr @ tr') = reports tr @ reports tr'"
  by (induction tr rule: reports.induct) auto

lemma failed_on_subset: "failed_on tr st \<subseteq> set (ran_on tr st)"
  by (induction tr st rule: failed_on.induct) auto

lemma ran_on_results:
  "ran_on (map (\<lambda>r. Ran st (fst r) (snd r)) results) st' =
     (if st = st' then map fst results else [])"
  by (induction results) auto

lemma failed_on_results_same:
  "failed_on (map (\<lambda>r. Ran st (fst r) (snd r)) results) st = set (map fst (filter snd results))"
  by (induction results) auto

lemma failed_on_results_other:
  "st \<noteq> st' \<Longrightarrow> failed_on (map (\<lambda>r. Ran st (fst r) (snd r)) results) st' = {}"
  by (induction results) auto

lemma failed_on_results:
  "failed_on (map (\<lambda>r. Ran st (fst r) (snd r)) results) st' =
     (if st = st' then set (map fst (filter snd results)) else {})"
  using failed_on_results_same [of st results] failed_on_results_other [of st st' results]
  by (cases "st = st'") simp_all

lemma reports_results: "reports (map (\<lambda>r. Ran st (fst r) (snd r)) results) = []"
  by (induction results) auto

lemma run_tasks_hosts: "map fst (fst (run_tasks task hs w)) = hs"
proof (induction hs arbitrary: w)
  case Nil
  show ?case by simp
next
  case (Cons h hs)
  obtain failed w1 where one: "task h w = (failed, w1)" by (cases "task h w")
  obtain results w2 where more: "run_tasks task hs w1 = (results, w2)"
    by (cases "run_tasks task hs w1")
  from Cons.IH [of w1] more have "map fst results = hs" by simp
  with one more show ?case by simp
qed

lemma run_facts:
  "\<exists>results.
     map fst results = filter (\<lambda>host. host \<notin> failed_hosts s) (hosts s) \<and>
     hosts (run tasks st s) = hosts s \<and>
     stdin (run tasks st s) = stdin s \<and>
     failed_hosts (run tasks st s) = failed_hosts s \<union> set (map fst (filter snd results)) \<and>
     trace (run tasks st s) = trace s @ map (\<lambda>r. Ran st (fst r) (snd r)) results"
proof -
  let ?run_on = "filter (\<lambda>host. host \<notin> failed_hosts s) (hosts s)"
  obtain results w where r: "run_tasks (tasks st) ?run_on (world s) = (results, w)"
    by (cases "run_tasks (tasks st) ?run_on (world s)")
  from run_tasks_hosts [of "tasks st" ?run_on "world s"] r
  have "map fst results = ?run_on" by simp
  with r show ?thesis by (auto simp: run_def Let_def)
qed


text \<open>Two states that differ in what was printed, read or slept only.\<close>

definition same_run :: "'w run_state \<Rightarrow> 'w run_state \<Rightarrow> bool" where
  "same_run s s' =
     (hosts s' = hosts s \<and> failed_hosts s' = failed_hosts s \<and>
      (\<forall>st. ran_on (trace s') st = ran_on (trace s) st) \<and>
      (\<forall>st. failed_on (trace s') st = failed_on (trace s) st) \<and>
      reports (trace s') = reports (trace s))"

lemma same_run_refl: "same_run s s"
  by (simp add: same_run_def)

lemma same_run_trans: "same_run s s' \<Longrightarrow> same_run s' s'' \<Longrightarrow> same_run s s''"
  by (simp add: same_run_def)

lemma same_run_inv: "same_run s s' \<Longrightarrow> cohort_inv seen s' = cohort_inv seen s"
  by (simp add: same_run_def cohort_inv_def failed_before_def)

lemma same_run_say: "same_run s (say printme s)"
  by (simp add: same_run_def say_def ran_on_append failed_on_append reports_append)

lemma same_run_rule_line: "same_run s (rule_line s)"
  by (simp add: same_run_def rule_line_def ran_on_append failed_on_append reports_append)

lemma same_run_sleep: "same_run s (sleep n s)"
  by (simp add: same_run_def sleep_def ran_on_append failed_on_append reports_append)

lemma same_run_fold_say: "same_run s (fold (\<lambda>host. say (f host)) hs s)"
proof (induction hs arbitrary: s)
  case Nil
  show ?case by (simp add: same_run_refl)
next
  case (Cons h hs)
  from same_run_trans [OF same_run_say Cons.IH] show ?case by simp
qed

lemma same_run_proceed:
  "proceed s = Inr s' \<Longrightarrow> same_run s s'"
  "proceed s = Inl (x, s') \<Longrightarrow> same_run s s'"
  by (auto simp: proceed_def Let_def same_run_def say_def rule_line_def ran_on_append
        failed_on_append reports_append split: list.splits if_splits)

lemma takeWhile_seen:
  "x \<in> set seen \<Longrightarrow> takeWhile (\<lambda>y. y \<noteq> x) (seen @ [st]) = takeWhile (\<lambda>y. y \<noteq> x) seen"
  by (induction seen) auto

lemma takeWhile_new:
  "st \<notin> set seen \<Longrightarrow> takeWhile (\<lambda>y. y \<noteq> st) (seen @ [st]) = seen"
  by (induction seen) auto

lemma run_and_report_inv:
  assumes inv: "cohort_inv seen s" and new: "st \<notin> set seen"
  shows "cohort_inv (seen @ [st]) (run_and_report tasks st s)"
proof -
  from run_facts [of s tasks st] obtain results where
    on: "map fst results = filter (\<lambda>host. host \<notin> failed_hosts s) (hosts s)" and
    h: "hosts (run tasks st s) = hosts s" and
    f: "failed_hosts (run tasks st s) = failed_hosts s \<union> set (map fst (filter snd results))" and
    t: "trace (run tasks st s) = trace s @ map (\<lambda>r. Ran st (fst r) (snd r)) results"
    by blast
  let ?tr = "trace s"
  let ?new = "set (map fst (filter snd results))"
  let ?s' = "run_and_report tasks st s"
  let ?tr' = "trace ?s'"
  have h': "hosts ?s' = hosts s"
    using h by (simp add: run_and_report_def rule_line_def report_failed_def)
  have f': "failed_hosts ?s' = failed_hosts s \<union> ?new"
    using f by (simp add: run_and_report_def rule_line_def report_failed_def)
  have t': "?tr' = ?tr @ map (\<lambda>r. Ran st (fst r) (snd r)) results @
              [FailedHosts (failed_hosts s \<union> ?new), Printed (replicate 80 CHR ''~'')]"
    using t f by (simp add: run_and_report_def rule_line_def report_failed_def)
  have ran': "ran_on ?tr' x = ran_on ?tr x @ (if st = x then map fst results else [])" for x
    unfolding t' by (simp add: ran_on_append ran_on_results)
  have fail': "failed_on ?tr' x = failed_on ?tr x \<union> (if st = x then ?new else {})" for x
    unfolding t' by (simp add: failed_on_append failed_on_results)
  have rep': "reports ?tr' = reports ?tr @ [failed_hosts s \<union> ?new]"
    unfolding t' by (simp add: reports_append reports_results)
  from inv have ran: "ran_on ?tr x =
       (if x \<in> set seen then filter (\<lambda>host. host \<notin> failed_before seen ?tr x) (hosts s) else [])" for x
    by (simp add: cohort_inv_def)
  from inv have fh: "failed_hosts s = \<Union> (failed_on ?tr ` set seen)"
    and rep: "reports ?tr = map (\<lambda>st. failed_before seen ?tr st \<union> failed_on ?tr st) seen"
    by (simp_all add: cohort_inv_def)
  have none: "failed_on ?tr st = {}"
    using failed_on_subset [of ?tr st] ran [of st] new by simp
  have old: "failed_on ?tr' x = failed_on ?tr x" if "x \<in> set seen" for x
    using that new fail' [of x] by auto
  have before_old: "failed_before (seen @ [st]) ?tr' x = failed_before seen ?tr x"
    if x: "x \<in> set seen" for x
  proof -
    have "set (takeWhile (\<lambda>y. y \<noteq> x) seen) \<subseteq> set seen" by (auto dest: set_takeWhileD)
    then have "failed_on ?tr' ` set (takeWhile (\<lambda>y. y \<noteq> x) seen) =
               failed_on ?tr ` set (takeWhile (\<lambda>y. y \<noteq> x) seen)"
      using old by (intro image_cong) auto
    then show ?thesis by (simp add: failed_before_def takeWhile_seen [OF x])
  qed
  have before_new: "failed_before (seen @ [st]) ?tr' st = failed_hosts s"
  proof -
    have "failed_on ?tr' ` set seen = failed_on ?tr ` set seen"
      using old by (intro image_cong) auto
    then show ?thesis by (simp add: failed_before_def takeWhile_new [OF new] fh)
  qed
  show ?thesis
    unfolding cohort_inv_def
  proof (intro conjI allI)
    fix x
    show "ran_on ?tr' x =
       (if x \<in> set (seen @ [st])
        then filter (\<lambda>host. host \<notin> failed_before (seen @ [st]) ?tr' x) (hosts ?s')
        else [])"
    proof (cases "x \<in> set seen")
      case True
      with new have "st \<noteq> x" by auto
      with True ran' [of x] ran [of x] before_old [OF True] h' show ?thesis by simp
    next
      case False
      show ?thesis
      proof (cases "x = st")
        case True
        with ran' [of x] ran [of x] new on before_new h' show ?thesis by simp
      next
        case ne: False
        with False ran' [of x] ran [of x] show ?thesis by auto
      qed
    qed
  next
    have "\<Union> (failed_on ?tr' ` set (seen @ [st])) =
          \<Union> (failed_on ?tr' ` set seen) \<union> failed_on ?tr' st" by auto
    also have "failed_on ?tr' ` set seen = failed_on ?tr ` set seen"
      using old by (intro image_cong) auto
    also have "failed_on ?tr' st = ?new" using fail' [of st] none by simp
    finally show "failed_hosts ?s' = \<Union> (failed_on ?tr' ` set (seen @ [st]))"
      using f' fh by simp
  next
    have "map (\<lambda>x. failed_before (seen @ [st]) ?tr' x \<union> failed_on ?tr' x) seen =
          map (\<lambda>x. failed_before seen ?tr x \<union> failed_on ?tr x) seen"
      using before_old old by (intro map_cong) auto
    moreover have "failed_before (seen @ [st]) ?tr' st \<union> failed_on ?tr' st =
                   failed_hosts s \<union> ?new"
      using before_new fail' [of st] none by simp
    ultimately show "reports ?tr' =
        map (\<lambda>x. failed_before (seen @ [st]) ?tr' x \<union> failed_on ?tr' x) (seen @ [st])"
      using rep' rep by simp
  qed
qed


text \<open>The names of the hosts of the role that \<open>kickoff\<close> keeps.\<close>

definition provision_hosts :: "(string \<times> string) list \<Rightarrow> string list" where
  "provision_hosts inventory = map fst (filter (\<lambda>h. snd h = ''wan-router-provision'') inventory)"

text \<open>The run is over the hosts \<open>H\<close> and the stages \<open>seen\<close> have run.\<close>

definition at_stage :: "string list \<Rightarrow> stage list \<Rightarrow> 'w run_state \<Rightarrow> bool" where
  "at_stage H seen s = (hosts s = H \<and> cohort_inv seen s)"

lemma lower_y: "(lower a = ''y'') = (a = ''y'' \<or> a = ''Y'')"
proof -
  have c: "(lower_char c = CHR ''y'') = (c = CHR ''y'' \<or> c = CHR ''Y'')" for c
    by (simp add: lower_char_def)
  show ?thesis
  proof (cases a)
    case Nil
    then show ?thesis by (simp add: lower_def)
  next
    case (Cons x xs)
    then show ?thesis using c [of x] by (cases xs) (auto simp: lower_def)
  qed
qed

lemma at_stage_quiet: "at_stage H seen s \<Longrightarrow> same_run s s' \<Longrightarrow> at_stage H seen s'"
  using same_run_inv [of s s' seen] by (simp add: at_stage_def same_run_def)

lemma at_stage_say: "at_stage H seen s \<Longrightarrow> at_stage H seen (say printme s)"
  by (rule at_stage_quiet [OF _ same_run_say])

lemma at_stage_rule_line: "at_stage H seen s \<Longrightarrow> at_stage H seen (rule_line s)"
  by (rule at_stage_quiet [OF _ same_run_rule_line])

lemma at_stage_sleep: "at_stage H seen s \<Longrightarrow> at_stage H seen (sleep n s)"
  by (rule at_stage_quiet [OF _ same_run_sleep])

lemma at_stage_run:
  assumes "at_stage H seen s" and "st \<notin> set seen"
  shows "at_stage H (seen @ [st]) (run_and_report tasks st s)"
proof -
  from run_facts [of s tasks st] have "hosts (run tasks st s) = hosts s" by blast
  then have "hosts (run_and_report tasks st s) = hosts s"
    by (simp add: run_and_report_def rule_line_def report_failed_def)
  with assms run_and_report_inv [of seen s st tasks] show ?thesis by (simp add: at_stage_def)
qed

lemma stdin_say: "stdin (say printme s) = stdin s"
  by (simp add: say_def)

lemma stdin_rule_line: "stdin (rule_line s) = stdin s"
  by (simp add: rule_line_def)

lemma stdin_sleep: "stdin (sleep n s) = stdin s"
  by (simp add: sleep_def)

lemma stdin_run: "stdin (run_and_report tasks st s) = stdin s"
proof -
  from run_facts [of s tasks st] have "stdin (run tasks st s) = stdin s" by blast
  then show ?thesis by (simp add: run_and_report_def rule_line_def report_failed_def)
qed

lemma proceed_yes:
  assumes "stdin s = a # rest" and "lower a = ''y''"
  shows "\<exists>s'. proceed s = Inr s' \<and> same_run s s' \<and> stdin s' = rest"
proof -
  from assms obtain s' where p: "proceed s = Inr s'" and r: "stdin s' = rest"
    by (simp add: proceed_def Let_def say_def)
  from same_run_proceed(1) [OF p] p r show ?thesis by blast
qed

lemma proceed_no:
  assumes "stdin s = a # rest" and "lower a \<noteq> ''y''"
  shows "\<exists>s'. proceed s = Inl (SystemExit None, s') \<and> same_run s s'"
proof -
  from assms obtain s' where p: "proceed s = Inl (SystemExit None, s')"
    by (simp add: proceed_def Let_def say_def)
  from same_run_proceed(2) [OF p] p show ?thesis by blast
qed

lemma kickoff_cases:
  fixes w0 :: 'w and answers :: "string list"
  defines "s0 \<equiv> \<lparr>hosts = [], failed_hosts = {}, world = w0, stdin = answers, trace = []\<rparr>"
  shows "if provision_hosts inventory = []
         then \<exists>s. kickoff inventory s0 = Inl (SystemExit None, s) \<and>
                  at_stage (provision_hosts inventory) [] s
         else \<exists>s. kickoff inventory s0 = Inr s \<and> at_stage (provision_hosts inventory) [] s \<and>
                  stdin s = answers"
proof -
  let ?H = "provision_hosts inventory"
  let ?nr = "s0\<lparr>hosts := ?H\<rparr>"
  have start: "at_stage ?H [] ?nr"
    by (simp add: at_stage_def cohort_inv_def s0_def failed_before_def)
  show ?thesis
  proof (cases "?H = []")
    case True
    let ?s = "rule_line (say ''*** No matching hosts found in inventory ***'' ?nr)"
    have "kickoff inventory s0 = Inl (SystemExit None, ?s)"
      using True by (simp add: kickoff_def provision_hosts_def Let_def)
    moreover have "at_stage ?H [] ?s"
      by (intro at_stage_rule_line at_stage_say start)
    ultimately show ?thesis using True by auto
  next
    case False
    let ?s = "fold (\<lambda>host. say (''*** '' @ host @ '' ***'')) ?H
                (say ''Inventory includes the following devices:''
                   (say ''This script will provision Cisco CSR1000v WAN routers'' ?nr))"
    have k: "kickoff inventory s0 = Inr ?s"
      using False by (simp add: kickoff_def provision_hosts_def Let_def)
    have "at_stage ?H [] ?s"
      by (rule at_stage_quiet [OF _ same_run_fold_say]) (intro at_stage_say start)
    moreover have fold_stdin: "stdin (fold (\<lambda>host. say (f host)) hs s) = stdin s"
      for f hs and s :: "'w run_state"
      by (induction hs arbitrary: s) (simp_all add: stdin_say)
    have "stdin ?s = answers" unfolding fold_stdin stdin_say by (simp add: s0_def)
    ultimately show ?thesis using False k by auto
  qed
qed


text \<open>The four ways through \<open>main\<close> when the operator has an answer for each of the
  three prompts.\<close>

lemma main_cases:
  fixes w0 :: 'w
  shows "if provision_hosts inventory = [] \<or> lower a1 \<noteq> ''y''
         then \<exists>s. main tasks inventory (a1 # a2 # a3 # later) w0 = Inl (SystemExit None, s) \<and>
                  at_stage (provision_hosts inventory) [] s
         else if lower a2 \<noteq> ''y''
         then \<exists>s. main tasks inventory (a1 # a2 # a3 # later) w0 = Inl (SystemExit None, s) \<and>
                  at_stage (provision_hosts inventory) (take 3 pipeline) s
         else if lower a3 \<noteq> ''y''
         then \<exists>s. main tasks inventory (a1 # a2 # a3 # later) w0 = Inl (SystemExit None, s) \<and>
                  at_stage (provision_hosts inventory) (take 5 pipeline) s
         else \<exists>s. main tasks inventory (a1 # a2 # a3 # later) w0 = Inr s \<and>
                  at_stage (provision_hosts inventory) pipeline s"
proof -
  let ?H = "provision_hosts inventory"
  let ?s0 = "\<lparr>hosts = [], failed_hosts = {}, world = w0, stdin = a1 # a2 # a3 # later, trace = []\<rparr>"
  let ?main = "main tasks inventory (a1 # a2 # a3 # later) w0"
  note k = kickoff_cases [of inventory w0 "a1 # a2 # a3 # later"]
  show ?thesis
  proof (cases "?H = []")
    case True
    with k obtain s where "kickoff inventory ?s0 = Inl (SystemExit None, s)" "at_stage ?H [] s"
      by auto
    then have "?main = Inl (SystemExit None, s) \<and> at_stage ?H [] s" by (simp add: main_def)
    with True show ?thesis by auto
  next
    case hosts: False
    with k obtain nr0 where k0: "kickoff inventory ?s0 = Inr nr0" and i0: "at_stage ?H [] nr0"
      and in0: "stdin nr0 = a1 # a2 # a3 # later" by auto
    show ?thesis
    proof (cases "lower a1 = ''y''")
      case False
      from proceed_no [OF in0 False] obtain s where
        p: "proceed nr0 = Inl (SystemExit None, s)" and q: "same_run nr0 s" by blast
      from k0 p have "?main = Inl (SystemExit None, s)" by (simp add: main_def)
      with at_stage_quiet [OF i0 q] False show ?thesis by auto
    next
      case y1: True
      from proceed_yes [OF in0 y1] obtain nr1 where
        p1: "proceed nr0 = Inr nr1" and q1: "same_run nr0 nr1" and in1: "stdin nr1 = a2 # a3 # later"
        by blast
      let ?nr5 = "run_and_report tasks Task_render_configs
                  (say ''Rendering device configurations''
                    (run_and_report tasks Task_get_config_vars
                      (say ''Gathering device configuration variables from Netbox''
                        (run_and_report tasks Task_scp_enable
                          (say ''Enabling SCP for NAPALM on all devices'' (rule_line nr1))))))"
      let ?g2 = "say ''Applying Layer 3 configuration files to all devices'' ?nr5"
      have i1: "at_stage ?H [] nr1" by (rule at_stage_quiet [OF i0 q1])
      have "at_stage ?H ((([] @ [Task_scp_enable]) @ [Task_get_config_vars]) @ [Task_render_configs]) ?nr5"
        by (intro at_stage_run at_stage_say at_stage_rule_line i1) simp_all
      then have i5: "at_stage ?H (take 3 pipeline) ?g2"
        by (simp add: pipeline_def at_stage_say)
      have in5: "stdin ?g2 = a2 # a3 # later"
        by (simp only: stdin_say stdin_run stdin_rule_line in1)
      show ?thesis
      proof (cases "lower a2 = ''y''")
        case False
        from proceed_no [OF in5 False] obtain s where
          p: "proceed ?g2 = Inl (SystemExit None, s)" and q: "same_run ?g2 s" by blast
        from k0 p1 p have "?main = Inl (SystemExit None, s)" by (simp add: main_def Let_def)
        with at_stage_quiet [OF i5 q] False hosts y1 show ?thesis by auto
      next
        case y2: True
        from proceed_yes [OF in5 y2] obtain nr6 where
          p2: "proceed ?g2 = Inr nr6" and q2: "same_run ?g2 nr6" and in6: "stdin nr6 = a3 # later"
          by blast
        let ?nr8 = "run_and_report tasks Task_validate_l3
                      (sleep 20 (say ''Validating Layer 3 connectivity''
                        (run_and_report tasks Task_apply_l3_configs nr6)))"
        let ?g3 = "say ''Applying BGP routing configuration files to all devices'' ?nr8"
        have i6: "at_stage ?H (take 3 pipeline) nr6" by (rule at_stage_quiet [OF i5 q2])
        have "at_stage ?H ((take 3 pipeline @ [Task_apply_l3_configs]) @ [Task_validate_l3]) ?nr8"
          by (intro at_stage_run at_stage_say at_stage_sleep i6) (simp_all add: pipeline_def)
        then have i8: "at_stage ?H (take 5 pipeline) ?g3"
          by (simp add: pipeline_def at_stage_say)
        have in8: "stdin ?g3 = a3 # later"
          by (simp only: stdin_say stdin_run stdin_sleep in6)
        show ?thesis
        proof (cases "lower a3 = ''y''")
          case False
          from proceed_no [OF in8 False] obtain s where
            p: "proceed ?g3 = Inl (SystemExit None, s)" and q: "same_run ?g3 s" by blast
          from k0 p1 p2 p have "?main = Inl (SystemExit None, s)" by (simp add: main_def Let_def)
          with at_stage_quiet [OF i8 q] False hosts y1 y2 show ?thesis by auto
        next
          case y3: True
          from proceed_yes [OF in8 y3] obtain nr9 where
            p3: "proceed ?g3 = Inr nr9" and q3: "same_run ?g3 nr9" by blast
          let ?nr13 = "run_and_report tasks Task_scp_disable
                        (say ''Disabling SCP server on all devices''
                          (run_and_report tasks Task_update_netbox
                            (say ''Updating Netbox with information from devices''
                              (run_and_report tasks Task_validate_bgp
                                (sleep 20 (say ''Validating BGP adjacencies''
                                  (run_and_report tasks Task_apply_bgp_configs nr9)))))))"
          have i9: "at_stage ?H (take 5 pipeline) nr9" by (rule at_stage_quiet [OF i8 q3])
          have "at_stage ?H ((((take 5 pipeline @ [Task_apply_bgp_configs]) @ [Task_validate_bgp]) @
                   [Task_update_netbox]) @ [Task_scp_disable]) ?nr13"
            by (intro at_stage_run at_stage_say at_stage_sleep i9) (simp_all add: pipeline_def)
          then have i13: "at_stage ?H pipeline ?nr13" by (simp add: pipeline_def)
          from k0 p1 p2 p3 have "?main = Inr ?nr13" by (simp add: main_def Let_def)
          with i13 hosts y1 y2 y3 show ?thesis by auto
        qed
      qed
    qed
  qed
qed

text \<open>The stages that ran on a device at all.\<close>

definition stages_run :: "event list \<Rightarrow> stage set" where
  "stages_run tr = {st. ran_on tr st \<noteq> []}"

subsection \<open>A fleet of three routers\<close>

text \<open>An inventory with three routers to provision and a device of another role.\<close>

definition sample_fleet :: "(string \<times> string) list" where
  "sample_fleet =
     [(''A'', ''wan-router-provision''), (''B'', ''wan-router-provision''),
      (''C'', ''wan-router-provision''), (''D'', ''core-router'')]"

text \<open>Tasks of which one fails: the Layer 3 configuration on router \<open>B\<close>.\<close>

definition sample_tasks :: "stage \<Rightarrow> string \<Rightarrow> unit \<Rightarrow> bool \<times> unit" where
  "sample_tasks st host w = (st = Task_apply_l3_configs \<and> host = ''B'', w)"

lemma stage_in_pipeline: "st \<in> set pipeline"
  by (cases st) (simp_all add: pipeline_def)

lemma at_stage_stages_run: "at_stage H seen s \<Longrightarrow> stages_run (trace s) \<subseteq> set seen"
  by (auto simp: at_stage_def cohort_inv_def stages_run_def split: if_splits)

section \<open>Properties of the run\<close>

lemma main_reached:
  fixes w0 :: 'w
  shows "\<exists>seen s.
     (main tasks inventory (a1 # a2 # a3 # later) w0 = Inr s \<and> seen = pipeline \<or>
      main tasks inventory (a1 # a2 # a3 # later) w0 = Inl (SystemExit None, s) \<and>
        (seen = [] \<or> seen = take 3 pipeline \<or> seen = take 5 pipeline)) \<and>
     at_stage (provision_hosts inventory) seen s"
proof -
  note c = main_cases [of inventory a1 tasks a2 a3 later w0]
  show ?thesis
  proof (cases "provision_hosts inventory = [] \<or> lower a1 \<noteq> ''y''")
    case True
    with c show ?thesis by auto
  next
    case n1: False
    show ?thesis
    proof (cases "lower a2 \<noteq> ''y''")
      case True
      with c n1 show ?thesis by auto
    next
      case n2: False
      show ?thesis
      proof (cases "lower a3 \<noteq> ''y''")
        case True
        with c n1 n2 show ?thesis by auto
      next
        case False
        with c n1 n2 show ?thesis by auto
      qed
    qed
  qed
qed

text \<open>Claim C5. Failure is isolated per device across the pipeline. When the operator has an
  answer for each prompt, \<open>main\<close> ends, by returning or by leaving through \<open>exit()\<close>,
  in a state \<open>s\<close> where a prefix \<open>seen\<close> of the pipeline has run (all of it when
  \<open>main\<close> returns; the stages before a gate otherwise): every stage of \<open>seen\<close> ran
  on exactly the devices of the filtered inventory that failed no stage before it, so a device
  that fails a stage runs none of the later stages and every other device runs all of them, in
  the order of the inventory; no other stage ran; the set of failed hosts printed after a stage
  holds the devices that failed that stage or an earlier one, so a failed device is reported
  from its stage onward; and the set of failed hosts at the end holds the devices that failed
  a stage.\<close>

theorem stage_isolation:
  assumes "main tasks inventory (a1 # a2 # a3 # later) w0 = Inr s \<or>
           main tasks inventory (a1 # a2 # a3 # later) w0 = Inl (x, s)"
  shows "\<exists>seen.
     (main tasks inventory (a1 # a2 # a3 # later) w0 = Inr s \<longrightarrow> seen = pipeline) \<and>
     (seen = [] \<or> seen = take 3 pipeline \<or> seen = take 5 pipeline \<or> seen = pipeline) \<and>
     hosts s = provision_hosts inventory \<and>
     (\<forall>st. ran_on (trace s) st =
        (if st \<in> set seen
         then filter (\<lambda>host. host \<notin> failed_before seen (trace s) st) (hosts s)
         else [])) \<and>
     reports (trace s) =
       map (\<lambda>st. failed_before seen (trace s) st \<union> failed_on (trace s) st) seen \<and>
     failed_hosts s = \<Union> (failed_on (trace s) ` set seen)"
proof -
  from main_reached [of tasks inventory a1 a2 a3 later w0] obtain seen s' where
    r: "main tasks inventory (a1 # a2 # a3 # later) w0 = Inr s' \<and> seen = pipeline \<or>
        main tasks inventory (a1 # a2 # a3 # later) w0 = Inl (SystemExit None, s') \<and>
          (seen = [] \<or> seen = take 3 pipeline \<or> seen = take 5 pipeline)" and
    a: "at_stage (provision_hosts inventory) seen s'" by blast
  from r assms have same: "s' = s" by auto
  from r same have done_all: "main tasks inventory (a1 # a2 # a3 # later) w0 = Inr s \<longrightarrow> seen = pipeline"
    by auto
  from r have which: "seen = [] \<or> seen = take 3 pipeline \<or> seen = take 5 pipeline \<or> seen = pipeline"
    by auto
  from a same have h: "hosts s = provision_hosts inventory" and inv: "cohort_inv seen s"
    by (simp_all add: at_stage_def)
  from inv have
    "(\<forall>st. ran_on (trace s) st =
        (if st \<in> set seen
         then filter (\<lambda>host. host \<notin> failed_before seen (trace s) st) (hosts s)
         else [])) \<and>
     failed_hosts s = \<Union> (failed_on (trace s) ` set seen) \<and>
     reports (trace s) =
       map (\<lambda>st. failed_before seen (trace s) st \<union> failed_on (trace s) st) seen"
    unfolding cohort_inv_def .
  with done_all which h show ?thesis by blast
qed

text \<open>The run of the three routers when the operator confirms at each prompt.\<close>

lemma sample_main:
  "(case main sample_tasks sample_fleet [''y'', ''Y'', ''y''] () of
      Inl x \<Rightarrow> False
    | Inr s \<Rightarrow>
       ran_on (trace s) Task_apply_l3_configs = [''A'', ''B'', ''C''] \<and>
       ran_on (trace s) Task_validate_l3 = [''A'', ''C''] \<and>
       ran_on (trace s) Task_scp_disable = [''A'', ''C''] \<and>
       reports (trace s) = [{}, {}, {}, {''B''}, {''B''}, {''B''}, {''B''}, {''B''}, {''B''}])"
  by code_simp

text \<open>Router \<open>B\<close> fails the Layer 3 configuration: that stage ran on the three routers,
  the validation of Layer 3 and every later stage on \<open>A\<close> and \<open>C\<close> only, and
  \<open>B\<close> is in the report of the fourth stage and of every later one.\<close>

theorem stage_isolation_witness:
  "\<exists>s. main sample_tasks sample_fleet [''y'', ''Y'', ''y''] () = Inr s \<and>
       hosts s = [''A'', ''B'', ''C''] \<and>
       filter (\<lambda>host. host \<notin> failed_before pipeline (trace s) Task_apply_l3_configs) (hosts s) =
         [''A'', ''B'', ''C''] \<and>
       filter (\<lambda>host. host \<notin> failed_before pipeline (trace s) Task_validate_l3) (hosts s) =
         [''A'', ''C''] \<and>
       filter (\<lambda>host. host \<notin> failed_before pipeline (trace s) Task_scp_disable) (hosts s) =
         [''A'', ''C''] \<and>
       map (\<lambda>st. failed_before pipeline (trace s) st \<union> failed_on (trace s) st) pipeline =
         [{}, {}, {}, {''B''}, {''B''}, {''B''}, {''B''}, {''B''}, {''B''}]"
proof -
  from sample_main obtain s where
    run: "main sample_tasks sample_fleet [''y'', ''Y'', ''y''] () = Inr s" and
    r1: "ran_on (trace s) Task_apply_l3_configs = [''A'', ''B'', ''C'']" and
    r2: "ran_on (trace s) Task_validate_l3 = [''A'', ''C'']" and
    r3: "ran_on (trace s) Task_scp_disable = [''A'', ''C'']" and
    r4: "reports (trace s) = [{}, {}, {}, {''B''}, {''B''}, {''B''}, {''B''}, {''B''}, {''B''}]"
    by (cases "main sample_tasks sample_fleet [''y'', ''Y'', ''y''] ()") simp_all
  from stage_isolation [of sample_tasks sample_fleet "''y''" "''Y''" "''y''" "[]" "()" s "SystemExit None"]
    run
  have h: "hosts s = provision_hosts sample_fleet" and
    ran: "\<And>st. ran_on (trace s) st =
        (if st \<in> set pipeline
         then filter (\<lambda>host. host \<notin> failed_before pipeline (trace s) st) (hosts s)
         else [])" and
    rep: "reports (trace s) =
       map (\<lambda>st. failed_before pipeline (trace s) st \<union> failed_on (trace s) st) pipeline"
    by auto
  have h': "hosts s = [''A'', ''B'', ''C'']"
    using h by (simp add: provision_hosts_def sample_fleet_def)
  show ?thesis
  proof (intro exI conjI)
    show "main sample_tasks sample_fleet [''y'', ''Y'', ''y''] () = Inr s" by (rule run)
    show "hosts s = [''A'', ''B'', ''C'']" by (rule h')
    show "filter (\<lambda>host. host \<notin> failed_before pipeline (trace s) Task_apply_l3_configs) (hosts s) =
         [''A'', ''B'', ''C'']"
      using ran [of Task_apply_l3_configs] r1 stage_in_pipeline [of Task_apply_l3_configs] by simp
    show "filter (\<lambda>host. host \<notin> failed_before pipeline (trace s) Task_validate_l3) (hosts s) =
         [''A'', ''C'']"
      using ran [of Task_validate_l3] r2 stage_in_pipeline [of Task_validate_l3] by simp
    show "filter (\<lambda>host. host \<notin> failed_before pipeline (trace s) Task_scp_disable) (hosts s) =
         [''A'', ''C'']"
      using ran [of Task_scp_disable] r3 stage_in_pipeline [of Task_scp_disable] by simp
    show "map (\<lambda>st. failed_before pipeline (trace s) st \<union> failed_on (trace s) st) pipeline =
         [{}, {}, {}, {''B''}, {''B''}, {''B''}, {''B''}, {''B''}, {''B''}]"
      using rep r4 by simp
  qed
qed

subsection \<open>The stages between two prompts\<close>

text \<open>The lines of \<open>main\<close> from the first prompt to the second, from the second to the
  third, and from the third to the end; \<open>main\<close> is \<open>kickoff\<close>, and then a prompt
  before each of the three.\<close>

definition stages_to_l3_gate ::
  "(stage \<Rightarrow> string \<Rightarrow> 'w \<Rightarrow> bool \<times> 'w) \<Rightarrow> 'w run_state \<Rightarrow> 'w run_state" where
  "stages_to_l3_gate tasks nr1 =
     say ''Applying Layer 3 configuration files to all devices''
       (run_and_report tasks Task_render_configs
          (say ''Rendering device configurations''
             (run_and_report tasks Task_get_config_vars
                (say ''Gathering device configuration variables from Netbox''
                   (run_and_report tasks Task_scp_enable
                      (say ''Enabling SCP for NAPALM on all devices'' (rule_line nr1)))))))"

definition stages_to_bgp_gate ::
  "(stage \<Rightarrow> string \<Rightarrow> 'w \<Rightarrow> bool \<times> 'w) \<Rightarrow> 'w run_state \<Rightarrow> 'w run_state" where
  "stages_to_bgp_gate tasks nr6 =
     say ''Applying BGP routing configuration files to all devices''
       (run_and_report tasks Task_validate_l3
          (sleep 20 (say ''Validating Layer 3 connectivity''
             (run_and_report tasks Task_apply_l3_configs nr6))))"

definition stages_to_end ::
  "(stage \<Rightarrow> string \<Rightarrow> 'w \<Rightarrow> bool \<times> 'w) \<Rightarrow> 'w run_state \<Rightarrow> 'w run_state" where
  "stages_to_end tasks nr9 =
     run_and_report tasks Task_scp_disable
       (say ''Disabling SCP server on all devices''
          (run_and_report tasks Task_update_netbox
             (say ''Updating Netbox with information from devices''
                (run_and_report tasks Task_validate_bgp
                   (sleep 20 (say ''Validating BGP adjacencies''
                      (run_and_report tasks Task_apply_bgp_configs nr9)))))))"

lemma main_gates:
  "main tasks inventory answers w0 =
     (case kickoff inventory
             \<lparr>hosts = [], failed_hosts = {}, world = w0, stdin = answers, trace = []\<rparr> of
        Inl x \<Rightarrow> Inl x
      | Inr nr0 \<Rightarrow>
          (case proceed nr0 of
             Inl x \<Rightarrow> Inl x
           | Inr nr1 \<Rightarrow>
               (case proceed (stages_to_l3_gate tasks nr1) of
                  Inl x \<Rightarrow> Inl x
                | Inr nr6 \<Rightarrow>
                    (case proceed (stages_to_bgp_gate tasks nr6) of
                       Inl x \<Rightarrow> Inl x
                     | Inr nr9 \<Rightarrow> Inr (stages_to_end tasks nr9)))))"
  by (simp add: main_def Let_def stages_to_l3_gate_def stages_to_bgp_gate_def stages_to_end_def
      split: sum.splits)

lemma stages_to_l3_gate_stage:
  assumes "at_stage H [] s"
  shows "at_stage H (take 3 pipeline) (stages_to_l3_gate tasks s)"
    and "stdin (stages_to_l3_gate tasks s) = stdin s"
proof -
  have "at_stage H ((([] @ [Task_scp_enable]) @ [Task_get_config_vars]) @ [Task_render_configs])
          (stages_to_l3_gate tasks s)"
    unfolding stages_to_l3_gate_def
    by (intro at_stage_run at_stage_say at_stage_rule_line assms) simp_all
  then show "at_stage H (take 3 pipeline) (stages_to_l3_gate tasks s)"
    by (simp add: pipeline_def)
  show "stdin (stages_to_l3_gate tasks s) = stdin s"
    unfolding stages_to_l3_gate_def by (simp only: stdin_say stdin_run stdin_rule_line)
qed

lemma stages_to_bgp_gate_stage:
  assumes "at_stage H (take 3 pipeline) s"
  shows "at_stage H (take 5 pipeline) (stages_to_bgp_gate tasks s)"
    and "stdin (stages_to_bgp_gate tasks s) = stdin s"
proof -
  have "at_stage H ((take 3 pipeline @ [Task_apply_l3_configs]) @ [Task_validate_l3])
          (stages_to_bgp_gate tasks s)"
    unfolding stages_to_bgp_gate_def
    by (intro at_stage_run at_stage_say at_stage_sleep assms) (simp_all add: pipeline_def)
  then show "at_stage H (take 5 pipeline) (stages_to_bgp_gate tasks s)"
    by (simp add: pipeline_def)
  show "stdin (stages_to_bgp_gate tasks s) = stdin s"
    unfolding stages_to_bgp_gate_def by (simp only: stdin_say stdin_run stdin_sleep)
qed

lemma proceed_eof:
  assumes "stdin s = []"
  shows "\<exists>s'. proceed s = Inl (Uncaught EOFError, s') \<and> same_run s s'"
proof -
  from assms obtain s' where p: "proceed s = Inl (Uncaught EOFError, s')"
    by (simp add: proceed_def Let_def say_def)
  from same_run_proceed(2) [OF p] p show ?thesis by blast
qed

text \<open>The state at a prompt, and what \<open>proceed\<close> makes of the input there.\<close>

lemma gate_eof:
  assumes "at_stage H seen s" and "stdin s = []"
  shows "\<exists>s'. proceed s = Inl (Uncaught EOFError, s') \<and> at_stage H seen s'"
  using proceed_eof [OF assms(2)] at_stage_quiet [OF assms(1)] by blast

lemma gate_no:
  assumes "at_stage H seen s" and "stdin s = a # rest" and "lower a \<noteq> ''y''"
  shows "\<exists>s'. proceed s = Inl (SystemExit None, s') \<and> at_stage H seen s'"
  using proceed_no [OF assms(2,3)] at_stage_quiet [OF assms(1)] by blast

lemma gate_yes:
  assumes "at_stage H seen s" and "stdin s = a # rest" and "lower a = ''y''"
  shows "\<exists>s'. proceed s = Inr s' \<and> at_stage H seen s' \<and> stdin s' = rest"
  using proceed_yes [OF assms(2,3)] at_stage_quiet [OF assms(1)] by blast

lemma reach_gate1:
  fixes w0 :: 'w
  assumes "provision_hosts inventory \<noteq> []"
  shows "\<exists>nr0. kickoff inventory
                 \<lparr>hosts = [], failed_hosts = {}, world = w0, stdin = answers, trace = []\<rparr> = Inr nr0 \<and>
               at_stage (provision_hosts inventory) [] nr0 \<and> stdin nr0 = answers"
  using kickoff_cases [of inventory w0 answers] assms by simp

lemma reach_gate2:
  fixes w0 :: 'w
  assumes "provision_hosts inventory \<noteq> []" and "lower a1 = ''y''"
  shows "\<exists>nr0 nr1. kickoff inventory
                 \<lparr>hosts = [], failed_hosts = {}, world = w0, stdin = a1 # rest, trace = []\<rparr> = Inr nr0 \<and>
               proceed nr0 = Inr nr1 \<and>
               at_stage (provision_hosts inventory) (take 3 pipeline) (stages_to_l3_gate tasks nr1) \<and>
               stdin (stages_to_l3_gate tasks nr1) = rest"
proof -
  from reach_gate1 [OF assms(1), of w0 "a1 # rest"] obtain nr0 where
    k: "kickoff inventory
          \<lparr>hosts = [], failed_hosts = {}, world = w0, stdin = a1 # rest, trace = []\<rparr> = Inr nr0" and
    a: "at_stage (provision_hosts inventory) [] nr0" and i: "stdin nr0 = a1 # rest" by blast
  from gate_yes [OF a i assms(2)] obtain nr1 where
    p: "proceed nr0 = Inr nr1" and a1: "at_stage (provision_hosts inventory) [] nr1" and
    i1: "stdin nr1 = rest" by blast
  from stages_to_l3_gate_stage [OF a1, of tasks] i1 k p show ?thesis by auto
qed

lemma reach_gate3:
  fixes w0 :: 'w
  assumes "provision_hosts inventory \<noteq> []" and "lower a1 = ''y''" and "lower a2 = ''y''"
  shows "\<exists>nr0 nr1 nr6. kickoff inventory
                 \<lparr>hosts = [], failed_hosts = {}, world = w0, stdin = a1 # a2 # rest, trace = []\<rparr> = Inr nr0 \<and>
               proceed nr0 = Inr nr1 \<and> proceed (stages_to_l3_gate tasks nr1) = Inr nr6 \<and>
               at_stage (provision_hosts inventory) (take 5 pipeline) (stages_to_bgp_gate tasks nr6) \<and>
               stdin (stages_to_bgp_gate tasks nr6) = rest"
proof -
  from reach_gate2 [OF assms(1,2), of w0 "a2 # rest" tasks] obtain nr0 nr1 where
    k: "kickoff inventory
          \<lparr>hosts = [], failed_hosts = {}, world = w0, stdin = a1 # a2 # rest, trace = []\<rparr> = Inr nr0" and
    p: "proceed nr0 = Inr nr1" and
    a: "at_stage (provision_hosts inventory) (take 3 pipeline) (stages_to_l3_gate tasks nr1)" and
    i: "stdin (stages_to_l3_gate tasks nr1) = a2 # rest" by blast
  from gate_yes [OF a i assms(3)] obtain nr6 where
    p2: "proceed (stages_to_l3_gate tasks nr1) = Inr nr6" and
    a6: "at_stage (provision_hosts inventory) (take 3 pipeline) nr6" and
    i6: "stdin nr6 = rest" by blast
  from stages_to_bgp_gate_stage [OF a6, of tasks] i6 k p p2 show ?thesis by auto
qed

subsection \<open>How the process ends\<close>

text \<open>The process ends with the outcome \<open>out\<close> (\<open>None\<close> for the return of \<open>main\<close>) and
  the exit status \<open>code\<close>, and no stage outside \<open>stages\<close> has run on any device.\<close>

definition ends_with ::
  "(outcome \<times> 'w run_state) + 'w run_state \<Rightarrow> outcome option \<Rightarrow> stage set \<Rightarrow> int \<Rightarrow> bool" where
  "ends_with r out stages code =
     (\<exists>s. r = (case out of None \<Rightarrow> Inr s | Some x \<Rightarrow> Inl (x, s)) \<and>
          stages_run (trace s) \<subseteq> stages \<and> exit_code r = code)"

lemma ends_withI:
  assumes "r = Inl (x, s)" and "at_stage H seen s" and "set seen \<subseteq> stages"
    and "exit_code (Inl (x, s) :: (outcome \<times> 'w run_state) + 'w run_state) = code"
  shows "ends_with r (Some x) stages code"
  using assms at_stage_stages_run [OF assms(2)] by (auto simp: ends_with_def)

lemma first_three: "set (take 3 pipeline) = {Task_scp_enable, Task_get_config_vars, Task_render_configs}"
  by (simp add: pipeline_def)

lemma first_five:
  "set (take 5 pipeline) =
     {Task_scp_enable, Task_get_config_vars, Task_render_configs, Task_apply_l3_configs,
      Task_validate_l3}"
  by (simp add: pipeline_def)

lemma exit_code_simps:
  "exit_code (Inr s) = 0" "exit_code (Inl (SystemExit None, s)) = 0"
  "exit_code (Inl (Uncaught e, s)) = 1"
  by (simp_all add: exit_code_def)

text \<open>Claim C9, amended. The process returns from \<open>main\<close>, with the exit status 0, when the
  filter on the role leaves a device and the operator answers \<open>y\<close> or \<open>Y\<close> at each of the
  three prompts. It ends early in three situations, and in these only: when the filter leaves
  no device, and when an answer at a prompt that is reached is not \<open>y\<close> or \<open>Y\<close>, through
  \<open>exit()\<close> without an argument, that is with the exit status 0; and when the input ends at
  a prompt that is reached, with the \<open>EOFError\<close> of \<open>input\<close> that nothing catches, that
  is with the exit status 1. No stage has run on any device when the process ends before or at
  the first prompt, only the first three stages when it ends at the second, and only the first
  five when it ends at the third: no stage after the point of the end runs. The clauses are
  one for each shape of the list of the operator's answers.\<close>

theorem exit_and_abort:
  fixes w0 :: 'w
  shows
  "(provision_hosts inventory = [] \<longrightarrow>
      ends_with (main tasks inventory answers w0) (Some (SystemExit None)) {} 0) \<and>
   (provision_hosts inventory \<noteq> [] \<longrightarrow>
      ends_with (main tasks inventory [] w0) (Some (Uncaught EOFError)) {} 1 \<and>
      (lower a1 \<noteq> ''y'' \<longrightarrow>
         ends_with (main tasks inventory (a1 # rest) w0) (Some (SystemExit None)) {} 0) \<and>
      (lower a1 = ''y'' \<longrightarrow>
         ends_with (main tasks inventory [a1] w0) (Some (Uncaught EOFError))
           {Task_scp_enable, Task_get_config_vars, Task_render_configs} 1 \<and>
         (lower a2 \<noteq> ''y'' \<longrightarrow>
            ends_with (main tasks inventory (a1 # a2 # rest) w0) (Some (SystemExit None))
              {Task_scp_enable, Task_get_config_vars, Task_render_configs} 0) \<and>
         (lower a2 = ''y'' \<longrightarrow>
            ends_with (main tasks inventory [a1, a2] w0) (Some (Uncaught EOFError))
              {Task_scp_enable, Task_get_config_vars, Task_render_configs,
               Task_apply_l3_configs, Task_validate_l3} 1 \<and>
            (lower a3 \<noteq> ''y'' \<longrightarrow>
               ends_with (main tasks inventory (a1 # a2 # a3 # rest) w0) (Some (SystemExit None))
                 {Task_scp_enable, Task_get_config_vars, Task_render_configs,
                  Task_apply_l3_configs, Task_validate_l3} 0) \<and>
            (lower a3 = ''y'' \<longrightarrow>
               ends_with (main tasks inventory (a1 # a2 # a3 # rest) w0) None (set pipeline) 0)))) \<and>
   (lower a = ''y'') = (a = ''y'' \<or> a = ''Y'')"
proof -
  let ?H = "provision_hosts inventory"
  have none: "ends_with (main tasks inventory answers w0) (Some (SystemExit None)) {} 0"
    if e: "?H = []"
  proof -
    from kickoff_cases [of inventory w0 answers] e obtain s where
      k: "kickoff inventory
            \<lparr>hosts = [], failed_hosts = {}, world = w0, stdin = answers, trace = []\<rparr> =
          Inl (SystemExit None, s)" and a: "at_stage ?H [] s" by auto
    from k have "main tasks inventory answers w0 = Inl (SystemExit None, s)"
      by (simp add: main_gates)
    from ends_withI [OF this a] show ?thesis by (simp add: exit_code_simps)
  qed
  have g1: "ends_with (main tasks inventory [] w0) (Some (Uncaught EOFError)) {} 1"
    if h: "?H \<noteq> []"
  proof -
    from reach_gate1 [OF h, of w0 "[]"] obtain nr0 where
      k: "kickoff inventory
            \<lparr>hosts = [], failed_hosts = {}, world = w0, stdin = [], trace = []\<rparr> = Inr nr0" and
      a: "at_stage ?H [] nr0" and i: "stdin nr0 = []" by blast
    from gate_eof [OF a i] obtain s where
      p: "proceed nr0 = Inl (Uncaught EOFError, s)" and a': "at_stage ?H [] s" by blast
    from k p have "main tasks inventory [] w0 = Inl (Uncaught EOFError, s)"
      by (simp add: main_gates)
    from ends_withI [OF this a'] show ?thesis by (simp add: exit_code_simps)
  qed
  have g1n: "ends_with (main tasks inventory (a1 # rest) w0) (Some (SystemExit None)) {} 0"
    if h: "?H \<noteq> []" and n: "lower a1 \<noteq> ''y''"
  proof -
    from reach_gate1 [OF h, of w0 "a1 # rest"] obtain nr0 where
      k: "kickoff inventory
            \<lparr>hosts = [], failed_hosts = {}, world = w0, stdin = a1 # rest, trace = []\<rparr> = Inr nr0" and
      a: "at_stage ?H [] nr0" and i: "stdin nr0 = a1 # rest" by blast
    from gate_no [OF a i n] obtain s where
      p: "proceed nr0 = Inl (SystemExit None, s)" and a': "at_stage ?H [] s" by blast
    from k p have "main tasks inventory (a1 # rest) w0 = Inl (SystemExit None, s)"
      by (simp add: main_gates)
    from ends_withI [OF this a'] show ?thesis by (simp add: exit_code_simps)
  qed
  have g2: "ends_with (main tasks inventory [a1] w0) (Some (Uncaught EOFError))
              {Task_scp_enable, Task_get_config_vars, Task_render_configs} 1"
    if h: "?H \<noteq> []" and y1: "lower a1 = ''y''"
  proof -
    from reach_gate2 [OF h y1, of w0 "[]" tasks] obtain nr0 nr1 where
      k: "kickoff inventory
            \<lparr>hosts = [], failed_hosts = {}, world = w0, stdin = [a1], trace = []\<rparr> = Inr nr0" and
      p1: "proceed nr0 = Inr nr1" and
      a: "at_stage ?H (take 3 pipeline) (stages_to_l3_gate tasks nr1)" and
      i: "stdin (stages_to_l3_gate tasks nr1) = []" by blast
    from gate_eof [OF a i] obtain s where
      p: "proceed (stages_to_l3_gate tasks nr1) = Inl (Uncaught EOFError, s)" and
      a': "at_stage ?H (take 3 pipeline) s" by blast
    from k p1 p have "main tasks inventory [a1] w0 = Inl (Uncaught EOFError, s)"
      by (simp add: main_gates)
    from ends_withI [OF this a'] show ?thesis by (simp add: exit_code_simps first_three)
  qed
  have g2n: "ends_with (main tasks inventory (a1 # a2 # rest) w0) (Some (SystemExit None))
              {Task_scp_enable, Task_get_config_vars, Task_render_configs} 0"
    if h: "?H \<noteq> []" and y1: "lower a1 = ''y''" and n: "lower a2 \<noteq> ''y''"
  proof -
    from reach_gate2 [OF h y1, of w0 "a2 # rest" tasks] obtain nr0 nr1 where
      k: "kickoff inventory
            \<lparr>hosts = [], failed_hosts = {}, world = w0, stdin = a1 # a2 # rest, trace = []\<rparr> = Inr nr0" and
      p1: "proceed nr0 = Inr nr1" and
      a: "at_stage ?H (take 3 pipeline) (stages_to_l3_gate tasks nr1)" and
      i: "stdin (stages_to_l3_gate tasks nr1) = a2 # rest" by blast
    from gate_no [OF a i n] obtain s where
      p: "proceed (stages_to_l3_gate tasks nr1) = Inl (SystemExit None, s)" and
      a': "at_stage ?H (take 3 pipeline) s" by blast
    from k p1 p have "main tasks inventory (a1 # a2 # rest) w0 = Inl (SystemExit None, s)"
      by (simp add: main_gates)
    from ends_withI [OF this a'] show ?thesis by (simp add: exit_code_simps first_three)
  qed
  have g3: "ends_with (main tasks inventory [a1, a2] w0) (Some (Uncaught EOFError))
              {Task_scp_enable, Task_get_config_vars, Task_render_configs,
               Task_apply_l3_configs, Task_validate_l3} 1"
    if h: "?H \<noteq> []" and y1: "lower a1 = ''y''" and y2: "lower a2 = ''y''"
  proof -
    from reach_gate3 [OF h y1 y2, of w0 "[]" tasks] obtain nr0 nr1 nr6 where
      k: "kickoff inventory
            \<lparr>hosts = [], failed_hosts = {}, world = w0, stdin = [a1, a2], trace = []\<rparr> = Inr nr0" and
      p1: "proceed nr0 = Inr nr1" and p2: "proceed (stages_to_l3_gate tasks nr1) = Inr nr6" and
      a: "at_stage ?H (take 5 pipeline) (stages_to_bgp_gate tasks nr6)" and
      i: "stdin (stages_to_bgp_gate tasks nr6) = []" by blast
    from gate_eof [OF a i] obtain s where
      p: "proceed (stages_to_bgp_gate tasks nr6) = Inl (Uncaught EOFError, s)" and
      a': "at_stage ?H (take 5 pipeline) s" by blast
    from k p1 p2 p have "main tasks inventory [a1, a2] w0 = Inl (Uncaught EOFError, s)"
      by (simp add: main_gates)
    from ends_withI [OF this a'] show ?thesis by (simp add: exit_code_simps first_five)
  qed
  have g3n: "ends_with (main tasks inventory (a1 # a2 # a3 # rest) w0) (Some (SystemExit None))
              {Task_scp_enable, Task_get_config_vars, Task_render_configs,
               Task_apply_l3_configs, Task_validate_l3} 0"
    if h: "?H \<noteq> []" and y1: "lower a1 = ''y''" and y2: "lower a2 = ''y''" and n: "lower a3 \<noteq> ''y''"
  proof -
    from reach_gate3 [OF h y1 y2, of w0 "a3 # rest" tasks] obtain nr0 nr1 nr6 where
      k: "kickoff inventory
            \<lparr>hosts = [], failed_hosts = {}, world = w0, stdin = a1 # a2 # a3 # rest, trace = []\<rparr> =
          Inr nr0" and
      p1: "proceed nr0 = Inr nr1" and p2: "proceed (stages_to_l3_gate tasks nr1) = Inr nr6" and
      a: "at_stage ?H (take 5 pipeline) (stages_to_bgp_gate tasks nr6)" and
      i: "stdin (stages_to_bgp_gate tasks nr6) = a3 # rest" by blast
    from gate_no [OF a i n] obtain s where
      p: "proceed (stages_to_bgp_gate tasks nr6) = Inl (SystemExit None, s)" and
      a': "at_stage ?H (take 5 pipeline) s" by blast
    from k p1 p2 p have "main tasks inventory (a1 # a2 # a3 # rest) w0 = Inl (SystemExit None, s)"
      by (simp add: main_gates)
    from ends_withI [OF this a'] show ?thesis by (simp add: exit_code_simps first_five)
  qed
  have g4: "ends_with (main tasks inventory (a1 # a2 # a3 # rest) w0) None (set pipeline) 0"
    if h: "?H \<noteq> []" and y1: "lower a1 = ''y''" and y2: "lower a2 = ''y''" and y3: "lower a3 = ''y''"
  proof -
    from reach_gate3 [OF h y1 y2, of w0 "a3 # rest" tasks] obtain nr0 nr1 nr6 where
      k: "kickoff inventory
            \<lparr>hosts = [], failed_hosts = {}, world = w0, stdin = a1 # a2 # a3 # rest, trace = []\<rparr> =
          Inr nr0" and
      p1: "proceed nr0 = Inr nr1" and p2: "proceed (stages_to_l3_gate tasks nr1) = Inr nr6" and
      a: "at_stage ?H (take 5 pipeline) (stages_to_bgp_gate tasks nr6)" and
      i: "stdin (stages_to_bgp_gate tasks nr6) = a3 # rest" by blast
    from gate_yes [OF a i y3] obtain nr9 where
      p: "proceed (stages_to_bgp_gate tasks nr6) = Inr nr9" by blast
    from k p1 p2 p have m: "main tasks inventory (a1 # a2 # a3 # rest) w0 = Inr (stages_to_end tasks nr9)"
      by (simp add: main_gates)
    have "stages_run (trace (stages_to_end tasks nr9)) \<subseteq> set pipeline"
      using stage_in_pipeline by auto
    with m show ?thesis by (auto simp: ends_with_def exit_code_simps)
  qed
  from none g1 g1n g2 g2n g3 g3n g4 lower_y [of a] show ?thesis by blast
qed

text \<open>All the ways to end, on the fleet of three routers and on an inventory with no router
  to provision.\<close>

theorem exit_and_abort_witness:
  "ends_with (main sample_tasks [(''D'', ''core-router'')] [] ()) (Some (SystemExit None)) {} 0 \<and>
   ends_with (main sample_tasks sample_fleet [] ()) (Some (Uncaught EOFError)) {} 1 \<and>
   ends_with (main sample_tasks sample_fleet [''n'', ''y''] ()) (Some (SystemExit None)) {} 0 \<and>
   ends_with (main sample_tasks sample_fleet [''y''] ()) (Some (Uncaught EOFError))
     {Task_scp_enable, Task_get_config_vars, Task_render_configs} 1 \<and>
   ends_with (main sample_tasks sample_fleet [''y'', ''no''] ()) (Some (SystemExit None))
     {Task_scp_enable, Task_get_config_vars, Task_render_configs} 0 \<and>
   ends_with (main sample_tasks sample_fleet [''y'', ''Y''] ()) (Some (Uncaught EOFError))
     {Task_scp_enable, Task_get_config_vars, Task_render_configs, Task_apply_l3_configs,
      Task_validate_l3} 1 \<and>
   ends_with (main sample_tasks sample_fleet [''y'', ''Y'', []] ()) (Some (SystemExit None))
     {Task_scp_enable, Task_get_config_vars, Task_render_configs, Task_apply_l3_configs,
      Task_validate_l3} 0 \<and>
   ends_with (main sample_tasks sample_fleet [''y'', ''Y'', ''y''] ()) None (set pipeline) 0"
proof -
  have none: "provision_hosts [(''D'', ''core-router'')] = []"
    by (simp add: provision_hosts_def)
  have some: "provision_hosts sample_fleet \<noteq> []"
    by (simp add: provision_hosts_def sample_fleet_def)
  have y: "lower ''y'' = ''y''" "lower ''Y'' = ''y''" "lower ''n'' \<noteq> ''y''"
    "lower ''no'' \<noteq> ''y''" "lower [] \<noteq> ''y''"
    by (simp_all add: lower_def lower_char_def)
  note w0 = exit_and_abort [of "[(''D'', ''core-router'')]" sample_tasks "[]" "()" "[]" "[]" "[]"
      "[]" "[]", THEN conjunct1, THEN mp, OF none]
  note w1 = exit_and_abort [of sample_fleet sample_tasks "[]" "()" "''n''" "[''y'']" "[]" "[]" "[]",
      THEN conjunct2, THEN conjunct1, THEN mp, OF some]
  note w2 = exit_and_abort [of sample_fleet sample_tasks "[]" "()" "''y''" "[]" "''no''" "[]" "[]",
      THEN conjunct2, THEN conjunct1, THEN mp, OF some]
  note w3 = exit_and_abort [of sample_fleet sample_tasks "[]" "()" "''y''" "[]" "''Y''" "[]" "[]",
      THEN conjunct2, THEN conjunct1, THEN mp, OF some]
  note w4 = exit_and_abort [of sample_fleet sample_tasks "[]" "()" "''y''" "[]" "''Y''" "''y''" "[]",
      THEN conjunct2, THEN conjunct1, THEN mp, OF some]
  from w0 have a: "ends_with (main sample_tasks [(''D'', ''core-router'')] [] ())
      (Some (SystemExit None)) {} 0" .
  from w1 have b: "ends_with (main sample_tasks sample_fleet [] ()) (Some (Uncaught EOFError)) {} 1"
    by simp
  from w1 y have c: "ends_with (main sample_tasks sample_fleet [''n'', ''y''] ())
      (Some (SystemExit None)) {} 0" by simp
  from w2 y have d: "ends_with (main sample_tasks sample_fleet [''y''] ()) (Some (Uncaught EOFError))
     {Task_scp_enable, Task_get_config_vars, Task_render_configs} 1" by simp
  from w2 y have e: "ends_with (main sample_tasks sample_fleet [''y'', ''no''] ())
     (Some (SystemExit None)) {Task_scp_enable, Task_get_config_vars, Task_render_configs} 0"
    by simp
  from w3 y have f: "ends_with (main sample_tasks sample_fleet [''y'', ''Y''] ())
     (Some (Uncaught EOFError))
     {Task_scp_enable, Task_get_config_vars, Task_render_configs, Task_apply_l3_configs,
      Task_validate_l3} 1" by simp
  from w3 y have g: "ends_with (main sample_tasks sample_fleet [''y'', ''Y'', []] ())
     (Some (SystemExit None))
     {Task_scp_enable, Task_get_config_vars, Task_render_configs, Task_apply_l3_configs,
      Task_validate_l3} 0" by simp
  from w4 y have h: "ends_with (main sample_tasks sample_fleet [''y'', ''Y'', ''y''] ()) None
     (set pipeline) 0" by simp
  from a b c d e f g h show ?thesis by blast
qed

text \<open>The outcome of a run: the exception that ended the process, or \<open>None\<close> after the
  return of \<open>main\<close>.\<close>

definition outcome_of :: "(outcome \<times> 's) + 's \<Rightarrow> outcome option" where
  "outcome_of r = (case r of Inl (x, s) \<Rightarrow> Some x | Inr s \<Rightarrow> None)"

text \<open>Claim C9 as it is stated fails: the process does not end early in two situations only. The
  inventory has three routers to provision and the one answer of the operator confirms; the
  input ends at the second prompt, and the process ends there with an uncaught \<open>EOFError\<close>
  and the exit status 1.\<close>

theorem end_of_input_aborts:
  "provision_hosts sample_fleet = [''A'', ''B'', ''C''] \<and>
   list_all (\<lambda>a. lower a = ''y'') [''y''] \<and>
   outcome_of (main sample_tasks sample_fleet [''y''] ()) = Some (Uncaught EOFError) \<and>
   exit_code (main sample_tasks sample_fleet [''y''] ()) = 1"
  by code_simp

end
